theory Spec2Isabelle
  imports Complex_Main "HOL-Library.Product_Lexorder" "HOL-Library.Multiset"
begin

section \<open>Data model\<close>

text \<open>
  The route composition engine of \<^verbatim>\<open>src/model_trainer.py\<close> (class
  \<^verbatim>\<open>SmartCityGuideTrainer\<close>). Python floats are modelled as \<^typ>\<open>real\<close>, so
  rounding is not part of the model. A place is a Python dict. The keys that
  \<^verbatim>\<open>load_places_from_excel\<close> always writes are plain fields; the key
  \<^verbatim>\<open>category_id\<close> and the four keys that only \<^verbatim>\<open>find_optimal_places\<close> adds
  are optional, and reading an absent key raises \<^verbatim>\<open>KeyError\<close>.
\<close>

type_synonym coord = "real \<times> real"

record place =
  place_id :: int
  address :: string
  coords :: coord
  description :: string
  name :: string
  url :: string
  category_id :: "int option"
  similarity_score :: "real option"
  distance_to_start :: "real option"
  walk_time_to_place :: "real option"
  time_required :: "real option"

datatype error = KeyError string

text \<open>\<^verbatim>\<open>d[k]\<close> on a key that may be absent.\<close>

definition getitem :: "string \<Rightarrow> 'a option \<Rightarrow> error + 'a" where
  "getitem k v = (case v of None \<Rightarrow> Inl (KeyError k) | Some x \<Rightarrow> Inr x)"

text \<open>
  The geodesic distance in km (\<^verbatim>\<open>geopy.distance.geodesic(a, b).km\<close>) is an external
  capability; every function that measures a distance takes it as the parameter \<open>geodesic\<close>.
\<close>

type_synonym geodesic = "coord \<Rightarrow> coord \<Rightarrow> real"

section \<open>Walking time and dwell time\<close>

definition calculate_walking_time :: "real \<Rightarrow> real" where
  "calculate_walking_time distance_km =
     (let walking_speed = 4;
          walking_time_minutes = (distance_km / walking_speed) * 60
      in max 5 (min 120 walking_time_minutes))"

definition calculate_time_for_place :: "place \<Rightarrow> real \<Rightarrow> real" where
  "calculate_time_for_place p score =
     (if score > 0.7 then 0.4
      else if score > 0.5 then 0.3
      else if score > 0.3 then 0.25
      else 0.2)"

section \<open>Route time accounting\<close>

text \<open>
  \<^verbatim>\<open>sum(place['time_required'] for place in places)\<close>: the generator reads the key of
  each place in turn and the first absent key raises.
\<close>

fun sum_time_required :: "place list \<Rightarrow> real \<Rightarrow> error + real" where
  "sum_time_required [] acc = Inr acc"
| "sum_time_required (p # ps) acc =
     (case getitem ''time_required'' (time_required p) of
        Inl e \<Rightarrow> Inl e
      | Inr t \<Rightarrow> sum_time_required ps (acc + t))"

text \<open>The loop \<^verbatim>\<open>for i in range(1, len(places))\<close> of \<^verbatim>\<open>calculate_total_route_time\<close>.\<close>

fun walking_loop :: "geodesic \<Rightarrow> place list \<Rightarrow> coord \<Rightarrow> real \<Rightarrow> real" where
  "walking_loop geodesic [] current_coords total_walking_time_min = total_walking_time_min"
| "walking_loop geodesic (p # ps) current_coords total_walking_time_min =
     (let dist = geodesic current_coords (coords p)
      in walking_loop geodesic ps (coords p)
           (total_walking_time_min + calculate_walking_time dist))"

definition calculate_total_route_time ::
  "geodesic \<Rightarrow> place list \<Rightarrow> coord \<Rightarrow> error + (real \<times> real \<times> real)" where
  "calculate_total_route_time geodesic places start_coords =
     (case places of
        [] \<Rightarrow> Inr (0, 0, 0)
      | first # rest \<Rightarrow>
          (case sum_time_required places 0 of
             Inl e \<Rightarrow> Inl e
           | Inr total_visit_time \<Rightarrow>
               (let first_dist = geodesic start_coords (coords first);
                    total_walking_time_min =
                      walking_loop geodesic rest (coords first)
                        (0 + calculate_walking_time first_dist);
                    total_walking_hours = total_walking_time_min / 60;
                    total_route_time = total_visit_time + total_walking_hours
                in Inr (total_route_time, total_walking_time_min, total_walking_hours))))"

section \<open>Route sequencing\<close>

text \<open>
  The complete graph over \<^verbatim>\<open>all_points\<close> is modelled by its weight function: the edge
  between nodes \<open>i < j\<close> is added once, with weight \<^verbatim>\<open>geodesic(all_points[i], all_points[j])\<close>,
  and \<^verbatim>\<open>graph[a][b]['weight']\<close> reads that edge whichever of \<open>a\<close>, \<open>b\<close> is smaller.
\<close>

definition build_graph :: "geodesic \<Rightarrow> coord list \<Rightarrow> nat \<Rightarrow> nat \<Rightarrow> real" where
  "build_graph geodesic all_points a b =
     (let i = min a b; j = max a b in geodesic (all_points ! i) (all_points ! j))"

text \<open>
  Python's \<^verbatim>\<open>min(iterable, key=...)\<close> keeps the first element whose key is minimal. The
  set \<^verbatim>\<open>unvisited\<close> holds small non-negative integers, which CPython iterates in
  ascending order; it is modelled as an ascending list.
\<close>

fun min_by :: "(nat \<Rightarrow> real) \<Rightarrow> nat \<Rightarrow> nat list \<Rightarrow> nat" where
  "min_by key best [] = best"
| "min_by key best (n # ns) = (if key n < key best then min_by key n ns else min_by key best ns)"

lemma min_by_in: "min_by key b ns \<in> set (b # ns)"
  by (induction ns arbitrary: b) auto

function greedy_loop :: "(nat \<Rightarrow> nat \<Rightarrow> real) \<Rightarrow> nat list \<Rightarrow> nat list \<Rightarrow> nat \<Rightarrow> nat list" where
  "greedy_loop graph [] tour current = tour"
| "greedy_loop graph (u # us) tour current =
     (let next_node = min_by (graph current) u us
      in greedy_loop graph (remove1 next_node (u # us)) (tour @ [next_node]) next_node)"
  by pat_completeness auto
termination
proof (relation "measure (\<lambda>(graph, unvisited, tour, current). length unvisited)")
  show "wf (measure (\<lambda>(graph, unvisited, tour, current). length unvisited))"
    by simp
next
  fix graph :: "nat \<Rightarrow> nat \<Rightarrow> real" and u us and tour :: "nat list" and current x
  assume "x = min_by (graph current) u us"
  then have "x \<in> set (u # us)"
    using min_by_in by simp
  then have "length (remove1 x (u # us)) < length (u # us)"
    by (simp only: length_remove1 if_True) simp
  then show "((graph, remove1 x (u # us), tour @ [x], x), (graph, u # us, tour, current))
      \<in> measure (\<lambda>(graph, unvisited, tour, current). length unvisited)"
    by simp
qed

definition greedy_tsp :: "(nat \<Rightarrow> nat \<Rightarrow> real) \<Rightarrow> nat list \<Rightarrow> nat \<Rightarrow> nat list" where
  "greedy_tsp graph nodes start_node =
     greedy_loop graph (remove1 start_node nodes) [start_node] start_node"

text \<open>
  Every node of \<^verbatim>\<open>tour[1:]\<close> is at least 1, so \<^verbatim>\<open>places[i - 1]\<close> never reads a
  negative index.
\<close>

definition optimize_route_sequence :: "geodesic \<Rightarrow> place list \<Rightarrow> coord \<Rightarrow> place list" where
  "optimize_route_sequence geodesic places start_coords =
     (if length places \<le> 1 then places
      else
        (let all_points = start_coords # map coords places;
             tour = greedy_tsp (build_graph geodesic all_points) [0 ..< length all_points] 0
         in map (\<lambda>i. places ! (i - 1)) (tl tour)))"

section \<open>Candidate ranking\<close>

text \<open>
  \<^verbatim>\<open>cosine_scores\<close> is the output of the external embedding capability
  (\<^verbatim>\<open>util.cos_sim(query_embedding, self.place_embeddings)[0]\<close>): one score per
  precomputed embedding, that is per catalog index, so it is modelled as a function of
  the index. The loop of lines 158-168 builds one scored dict per place.
\<close>

definition score_place :: "geodesic \<Rightarrow> (nat \<Rightarrow> real) \<Rightarrow> coord \<Rightarrow> nat \<Rightarrow> place \<Rightarrow> place" where
  "score_place geodesic cosine_scores start_coords i p =
     (let dist_to_start = geodesic start_coords (coords p);
          walk_time = calculate_walking_time dist_to_start / 60
      in p\<lparr>similarity_score := Some (cosine_scores i),
           distance_to_start := Some dist_to_start,
           walk_time_to_place := Some walk_time,
           time_required := Some (calculate_time_for_place p (cosine_scores i))\<rparr>)"

definition score_places :: "geodesic \<Rightarrow> place list \<Rightarrow> (nat \<Rightarrow> real) \<Rightarrow> coord \<Rightarrow> place list" where
  "score_places geodesic self_places cosine_scores start_coords =
     map (\<lambda>(i, p). score_place geodesic cosine_scores start_coords i p) (enumerate 0 self_places)"

text \<open>
  \<^verbatim>\<open>list.sort(key=lambda x: (-x['similarity_score'], x['distance_to_start']))\<close>: the keys
  are computed first, one per element, then the list is sorted on them by a stable sort;
  tuples compare lexicographically.
\<close>

definition sort_key_of :: "place \<Rightarrow> error + (real \<times> real)" where
  "sort_key_of x =
     (case getitem ''similarity_score'' (similarity_score x) of
        Inl e \<Rightarrow> Inl e
      | Inr s \<Rightarrow>
          (case getitem ''distance_to_start'' (distance_to_start x) of
             Inl e \<Rightarrow> Inl e
           | Inr d \<Rightarrow> Inr (- s, d)))"

fun sort_keys :: "place list \<Rightarrow> error + (real \<times> real) list" where
  "sort_keys [] = Inr []"
| "sort_keys (x # xs) =
     (case sort_key_of x of
        Inl e \<Rightarrow> Inl e
      | Inr k \<Rightarrow> (case sort_keys xs of Inl e \<Rightarrow> Inl e | Inr ks \<Rightarrow> Inr (k # ks)))"

definition list_sort :: "place list \<Rightarrow> error + place list" where
  "list_sort xs =
     (case sort_keys xs of
        Inl e \<Rightarrow> Inl e
      | Inr ks \<Rightarrow> Inr (map snd (sort_key fst (zip ks xs))))"

definition places_with_scores ::
  "geodesic \<Rightarrow> place list \<Rightarrow> (nat \<Rightarrow> real) \<Rightarrow> coord \<Rightarrow> error + place list" where
  "places_with_scores geodesic self_places cosine_scores start_coords =
     list_sort (score_places geodesic self_places cosine_scores start_coords)"

section \<open>Budgeted selection\<close>

text \<open>
  The inner loop over \<^verbatim>\<open>places_with_scores\<close> (lines 181-204, and again lines 222-241
  with the bound 5): the state is the accumulator and the running total.
\<close>

fun fill_loop ::
  "geodesic \<Rightarrow> nat \<Rightarrow> real \<Rightarrow> place list \<Rightarrow> place list \<Rightarrow> real \<Rightarrow> error + (place list \<times> real)" where
  "fill_loop geodesic target_count max_time [] combination current_total_time =
     Inr (combination, current_total_time)"
| "fill_loop geodesic target_count max_time (p # ps) combination current_total_time =
     (if length combination \<ge> target_count then Inr (combination, current_total_time)
      else if p \<in> set combination then
        fill_loop geodesic target_count max_time ps combination current_total_time
      else
        (case getitem ''time_required'' (time_required p) of
           Inl e \<Rightarrow> Inl e
         | Inr visit \<Rightarrow>
             (case (if combination = [] then getitem ''walk_time_to_place'' (walk_time_to_place p)
                    else
                      (let last_place = last combination;
                           dist_between = geodesic (coords last_place) (coords p)
                       in Inr (calculate_walking_time dist_between / 60))) of
                Inl e \<Rightarrow> Inl e
              | Inr walk \<Rightarrow>
                  (let place_total_time = visit + walk
                   in if current_total_time + place_total_time \<le> max_time
                      then fill_loop geodesic target_count max_time ps (combination @ [p])
                             (current_total_time + place_total_time)
                      else fill_loop geodesic target_count max_time ps combination
                             current_total_time))))"

text \<open>
  One iteration of \<^verbatim>\<open>for target_count in [5, 4, 3]\<close>. \<^verbatim>\<open>best_time_diff\<close> starts at
  \<^verbatim>\<open>float('inf')\<close>, modelled as \<open>None\<close>.
\<close>

definition tier_a_pass ::
  "geodesic \<Rightarrow> place list \<Rightarrow> real \<Rightarrow> real \<Rightarrow> coord \<Rightarrow> nat \<Rightarrow> place list \<times> real option
     \<Rightarrow> error + (place list \<times> real option)" where
  "tier_a_pass geodesic ranked min_time max_time start_coords target_count st =
     (case fill_loop geodesic target_count max_time ranked [] 0 of
        Inl e \<Rightarrow> Inl e
      | Inr (combination, current_total_time) \<Rightarrow>
          if length combination \<ge> 3 then
            (case calculate_total_route_time geodesic combination start_coords of
               Inl e \<Rightarrow> Inl e
             | Inr (total_route_time, total_walking_time_min, total_walking_hours) \<Rightarrow>
                 if min_time \<le> total_route_time \<and> total_route_time \<le> max_time then
                   (let time_diff = \<bar>total_route_time - (min_time + max_time) / 2\<bar>
                    in if (case snd st of None \<Rightarrow> True | Some best_time_diff \<Rightarrow> time_diff < best_time_diff)
                       then Inr (combination, Some time_diff)
                       else Inr st)
                 else Inr st)
          else Inr st)"

fun tier_a_loop ::
  "geodesic \<Rightarrow> place list \<Rightarrow> real \<Rightarrow> real \<Rightarrow> coord \<Rightarrow> nat list \<Rightarrow> place list \<times> real option
     \<Rightarrow> error + (place list \<times> real option)" where
  "tier_a_loop geodesic ranked min_time max_time start_coords [] st = Inr st"
| "tier_a_loop geodesic ranked min_time max_time start_coords (target_count # rest) st =
     (case tier_a_pass geodesic ranked min_time max_time start_coords target_count st of
        Inl e \<Rightarrow> Inl e
      | Inr st' \<Rightarrow> tier_a_loop geodesic ranked min_time max_time start_coords rest st')"

text \<open>The loop of lines 246-250, which tops the result up to three places.\<close>

fun tier_c_loop :: "place list \<Rightarrow> place list \<Rightarrow> place list" where
  "tier_c_loop [] best_combination = best_combination"
| "tier_c_loop (p # ps) best_combination =
     (if length best_combination \<ge> 3 then best_combination
      else if p \<notin> set best_combination then tier_c_loop ps (best_combination @ [p])
      else tier_c_loop ps best_combination)"

text \<open>
  Lines 173-252: the three selection tiers, all walking the ranked list
  \<^verbatim>\<open>places_with_scores\<close>.
\<close>

definition budgeted_selector ::
  "geodesic \<Rightarrow> place list \<Rightarrow> real \<Rightarrow> real \<Rightarrow> coord \<Rightarrow> error + place list" where
  "budgeted_selector geodesic ranked min_time max_time start_coords =
     (case tier_a_loop geodesic ranked min_time max_time start_coords [5, 4, 3] ([], None) of
        Inl e \<Rightarrow> Inl e
      | Inr (best_a, best_time_diff) \<Rightarrow>
          (case (if best_a = [] then fill_loop geodesic 5 max_time ranked [] 0
                 else Inr (best_a, 0)) of
             Inl e \<Rightarrow> Inl e
           | Inr (best_combination, current_time) \<Rightarrow>
               Inr (if length best_combination < 3 \<and> length ranked \<ge> 3
                    then tier_c_loop ranked best_combination
                    else best_combination)))"

definition find_optimal_places ::
  "geodesic \<Rightarrow> place list \<Rightarrow> (nat \<Rightarrow> real) \<Rightarrow> real \<Rightarrow> real \<Rightarrow> coord \<Rightarrow> error + place list" where
  "find_optimal_places geodesic self_places cosine_scores min_time max_time start_coords =
     (if self_places = [] then Inr []
      else
        (case places_with_scores geodesic self_places cosine_scores start_coords of
           Inl e \<Rightarrow> Inl e
         | Inr ranked \<Rightarrow> budgeted_selector geodesic ranked min_time max_time start_coords))"

section \<open>Route plan\<close>

text \<open>
  \<^verbatim>\<open>generate_route_plan\<close> up to its return value. The text of the messages and the
  clock are not modelled: the result keeps the ordered stops and the three totals the
  messages print, and the loop over the stops keeps the key reads that can raise.
\<close>

datatype plan =
  NotEnoughData
| Itinerary "place list" real real real

fun message_loop :: "place list \<Rightarrow> error + unit" where
  "message_loop [] = Inr ()"
| "message_loop (p # ps) =
     (case getitem ''similarity_score'' (similarity_score p) of
        Inl e \<Rightarrow> Inl e
      | Inr s \<Rightarrow>
          (case getitem ''time_required'' (time_required p) of
             Inl e \<Rightarrow> Inl e
           | Inr t \<Rightarrow> message_loop ps))"

definition generate_route_plan ::
  "geodesic \<Rightarrow> place list \<Rightarrow> place list \<Rightarrow> coord \<Rightarrow> error + plan" where
  "generate_route_plan geodesic self_places places start_coords =
     (case (if places = [] \<or> length places < 3
            then (if self_places \<noteq> [] then Some (take 5 self_places) else None)
            else Some places) of
        None \<Rightarrow> Inr NotEnoughData
      | Some places1 \<Rightarrow>
          (let places2 = (if length places1 > 5 then take 5 places1 else places1);
               optimized_places = optimize_route_sequence geodesic places2 start_coords
           in case calculate_total_route_time geodesic optimized_places start_coords of
                Inl e \<Rightarrow> Inl e
              | Inr (total_route_time, total_walking_time_min, total_walking_hours) \<Rightarrow>
                  (case sum_time_required optimized_places 0 of
                     Inl e \<Rightarrow> Inl e
                   | Inr total_visit_time \<Rightarrow>
                       (case message_loop optimized_places of
                          Inl e \<Rightarrow> Inl e
                        | Inr u \<Rightarrow>
                            Inr (Itinerary optimized_places total_route_time
                                   total_walking_time_min total_visit_time)))))"

section \<open>Specification-side notions\<close>

text \<open>The clamp of the specification's walking-time formula, written from its words.\<close>

definition clamp :: "real \<Rightarrow> real \<Rightarrow> real \<Rightarrow> real" where
  "clamp x lo hi = (if x < lo then lo else if hi < x then hi else x)"

text \<open>
  The legs of a route: start to the first place, then each consecutive pair; and the
  walking minutes summed over them.
\<close>

definition route_legs :: "coord \<Rightarrow> place list \<Rightarrow> (coord \<times> coord) list" where
  "route_legs start_coords places = zip (start_coords # map coords places) (map coords places)"

definition legs_walking_minutes :: "geodesic \<Rightarrow> coord \<Rightarrow> place list \<Rightarrow> real" where
  "legs_walking_minutes geodesic start_coords places =
     sum_list (map (\<lambda>(a, b). calculate_walking_time (geodesic a b)) (route_legs start_coords places))"

text \<open>
  A greedy nearest-neighbour tour of the places \<open>unvisited\<close> from the position \<open>pos\<close>:
  each stop is one of the places not yet visited, no other of them is nearer to the
  current position, and the tour ends when none is left.
\<close>

fun nearest_neighbour_tour :: "geodesic \<Rightarrow> coord \<Rightarrow> place multiset \<Rightarrow> place list \<Rightarrow> bool" where
  "nearest_neighbour_tour geodesic pos unvisited [] = (unvisited = {#})"
| "nearest_neighbour_tour geodesic pos unvisited (p # tour) =
     (p \<in># unvisited
      \<and> (\<forall>q \<in># unvisited. geodesic pos (coords p) \<le> geodesic pos (coords q))
      \<and> nearest_neighbour_tour geodesic (coords p) (unvisited - {#p#}) tour)"

text \<open>The same on the nodes of the graph, for the loop of \<^verbatim>\<open>greedy_tsp\<close>.\<close>

fun nn_idx :: "(nat \<Rightarrow> nat \<Rightarrow> real) \<Rightarrow> nat \<Rightarrow> nat list \<Rightarrow> nat list \<Rightarrow> bool" where
  "nn_idx g cur U [] = (U = [])"
| "nn_idx g cur U (n # ns) =
     (n \<in> set U \<and> (\<forall>m \<in> set U. g cur n \<le> g cur m) \<and> nn_idx g n (remove1 n U) ns)"

text \<open>
  The ranking order of two scored candidates: higher similarity first, and at equal
  similarity the smaller distance from the start first.
\<close>

definition ranked_before :: "place \<Rightarrow> place \<Rightarrow> bool" where
  "ranked_before a b \<longleftrightarrow>
     (\<exists>sa da sb db.
        similarity_score a = Some sa \<and> distance_to_start a = Some da
        \<and> similarity_score b = Some sb \<and> distance_to_start b = Some db
        \<and> (sa > sb \<or> (sa = sb \<and> da \<le> db)))"

text \<open>The candidates that tie on both keys, in the order of the list.\<close>

definition tied_at :: "real \<Rightarrow> real \<Rightarrow> place list \<Rightarrow> place list" where
  "tied_at s d xs = filter (\<lambda>x. similarity_score x = Some s \<and> distance_to_start x = Some d) xs"

text \<open>
  Two runs of the distance capability give the same answers on a request: they agree on
  every pair of points among the start coordinate and the coordinates of the places.
  Two runs of the embedding capability give the same answers on a catalog: they agree on
  the score of every catalog index.
\<close>

definition same_distances :: "geodesic \<Rightarrow> geodesic \<Rightarrow> coord \<Rightarrow> place list \<Rightarrow> bool" where
  "same_distances geodesic geodesic' start_coords places \<longleftrightarrow>
     (\<forall>a \<in> insert start_coords (coords ` set places).
        \<forall>b \<in> insert start_coords (coords ` set places). geodesic a b = geodesic' a b)"

definition same_scores :: "(nat \<Rightarrow> real) \<Rightarrow> (nat \<Rightarrow> real) \<Rightarrow> place list \<Rightarrow> bool" where
  "same_scores cosine_scores cosine_scores' self_places \<longleftrightarrow>
     (\<forall>i < length self_places. cosine_scores i = cosine_scores' i)"

text \<open>
  A candidate as \<^verbatim>\<open>find_optimal_places\<close> builds it: all four derived keys
  present. For such a candidate \<open>rank_key\<close> is the tuple its sort key evaluates to.
\<close>

definition scored :: "place \<Rightarrow> bool" where
  "scored p \<longleftrightarrow>
     similarity_score p \<noteq> None \<and> distance_to_start p \<noteq> None
     \<and> walk_time_to_place p \<noteq> None \<and> time_required p \<noteq> None"

definition rank_key :: "place \<Rightarrow> real \<times> real" where
  "rank_key x = (- the (similarity_score x), the (distance_to_start x))"

text \<open>
  The selection walk in the specification's words (section 4.4). The marginal time of a
  candidate is its dwell time plus a transition cost: the walk from the start if the
  accumulator is empty, otherwise the walk from the last accepted candidate. One step
  of the walk leaves the accumulator alone once it holds the target count, or when it
  already holds the candidate, and otherwise accepts the candidate if and only if the
  running total plus the marginal time stays within the maximum. A walk takes the
  ranked list front to back, from the empty accumulator and the running total 0.
\<close>

definition marginal_time :: "geodesic \<Rightarrow> place list \<Rightarrow> place \<Rightarrow> real" where
  "marginal_time geodesic combination p =
     the (time_required p)
     + (if combination = [] then the (walk_time_to_place p)
        else calculate_walking_time (geodesic (coords (last combination)) (coords p)) / 60)"

definition accept_step ::
  "geodesic \<Rightarrow> nat \<Rightarrow> real \<Rightarrow> place list \<times> real \<Rightarrow> place \<Rightarrow> place list \<times> real" where
  "accept_step geodesic target_count max_hours st c =
     (let accumulator = fst st;
          running_total = snd st;
          marginal = marginal_time geodesic accumulator c
      in if target_count \<le> length accumulator \<or> c \<in> set accumulator then st
         else if running_total + marginal \<le> max_hours
           then (accumulator @ [c], running_total + marginal)
         else st)"

definition walk_ranked :: "geodesic \<Rightarrow> nat \<Rightarrow> real \<Rightarrow> place list \<Rightarrow> place list" where
  "walk_ranked geodesic target_count max_hours ranked =
     fst (foldl (accept_step geodesic target_count max_hours) ([], 0) ranked)"

text \<open>
  The minimum guarantee in the specification's words: front to back over the ranked
  list, append each candidate the result does not hold yet, until it has three entries.
\<close>

definition top_up_step :: "place list \<Rightarrow> place \<Rightarrow> place list" where
  "top_up_step result c = (if 3 \<le> length result \<or> c \<in> set result then result else result @ [c])"

definition top_up :: "place list \<Rightarrow> place list \<Rightarrow> place list" where
  "top_up ranked result = foldl top_up_step result ranked"

text \<open>
  A catalog entry as \<^verbatim>\<open>load_places_from_excel\<close> builds it (lines 29-36): none of the
  keys that \<^verbatim>\<open>find_optimal_places\<close> derives.
\<close>

definition raw_place :: "place \<Rightarrow> bool" where
  "raw_place p \<longleftrightarrow>
     similarity_score p = None \<and> distance_to_start p = None
     \<and> walk_time_to_place p = None \<and> time_required p = None"

section \<open>Notions used in the proofs\<close>

text \<open>
  For scored candidates the reads of the route time computation cannot fail;
  \<open>route_total\<close> is then the total route time of a list.
\<close>

definition route_total :: "geodesic \<Rightarrow> coord \<Rightarrow> place list \<Rightarrow> real" where
  "route_total geodesic start_coords places =
     sum_list (map (\<lambda>p. the (time_required p)) places)
     + legs_walking_minutes geodesic start_coords places / 60"

text \<open>
  The accumulator a pass of Tier A builds for a target count, whether it is accepted
  (at least three places, total within the window), and its distance to the midpoint.
\<close>

definition pass_comb :: "geodesic \<Rightarrow> real \<Rightarrow> place list \<Rightarrow> nat \<Rightarrow> place list" where
  "pass_comb geodesic max_time ranked target_count =
     (case fill_loop geodesic target_count max_time ranked [] 0 of
        Inl e \<Rightarrow> []
      | Inr (combination, t) \<Rightarrow> combination)"

definition qualifies :: "geodesic \<Rightarrow> real \<Rightarrow> real \<Rightarrow> coord \<Rightarrow> place list \<Rightarrow> bool" where
  "qualifies geodesic min_time max_time start_coords c \<longleftrightarrow>
     3 \<le> length c
     \<and> min_time \<le> route_total geodesic start_coords c
     \<and> route_total geodesic start_coords c \<le> max_time"

definition mid_dist :: "geodesic \<Rightarrow> real \<Rightarrow> real \<Rightarrow> coord \<Rightarrow> place list \<Rightarrow> real" where
  "mid_dist geodesic min_time max_time start_coords c =
     \<bar>route_total geodesic start_coords c - (min_time + max_time) / 2\<bar>"

text \<open>
  The invariant of the loop over the target counts: either no pass seen so far was
  accepted and nothing is kept, or the kept combination is an accepted pass result that
  is no farther from the midpoint than any accepted pass seen.
\<close>

definition tier_a_inv ::
  "geodesic \<Rightarrow> place list \<Rightarrow> real \<Rightarrow> real \<Rightarrow> coord \<Rightarrow> nat list \<Rightarrow> place list \<times> real option \<Rightarrow> bool" where
  "tier_a_inv geodesic ranked min_time max_time start_coords seen st =
     (case snd st of
        None \<Rightarrow>
          fst st = []
          \<and> (\<forall>n \<in> set seen. \<not> qualifies geodesic min_time max_time start_coords
                                 (pass_comb geodesic max_time ranked n))
      | Some b \<Rightarrow>
          (\<exists>n \<in> set seen. fst st = pass_comb geodesic max_time ranked n)
          \<and> qualifies geodesic min_time max_time start_coords (fst st)
          \<and> b = mid_dist geodesic min_time max_time start_coords (fst st)
          \<and> (\<forall>n \<in> set seen.
                qualifies geodesic min_time max_time start_coords (pass_comb geodesic max_time ranked n)
                \<longrightarrow> b \<le> mid_dist geodesic min_time max_time start_coords
                          (pass_comb geodesic max_time ranked n)))"

section \<open>Example data\<close>

definition example_place :: "int \<Rightarrow> real \<Rightarrow> real \<Rightarrow> place" where
  "example_place i lat lon =
     \<lparr>place_id = i, address = ''address'', coords = (lat, lon), description = ''description'',
      name = ''name'', url = [], category_id = None, similarity_score = None,
      distance_to_start = None, walk_time_to_place = None, time_required = None\<rparr>"

text \<open>A symmetric stand-in for the distance capability: the sum of the coordinate gaps.\<close>

definition example_geodesic :: geodesic where
  "example_geodesic a b = \<bar>fst a - fst b\<bar> + \<bar>snd a - snd b\<bar>"

text \<open>Three places on a line north of the start, with falling similarity.\<close>

definition example_catalog :: "place list" where
  "example_catalog = [example_place 1 1 0, example_place 2 2 0, example_place 3 3 0]"

definition example_scores :: "nat \<Rightarrow> real" where
  "example_scores i = (if i = 0 then 4 / 5 else if i = 1 then 3 / 5 else 2 / 5)"

text \<open>The same place listed five times, every entry with the same similarity.\<close>

definition duplicate_catalog :: "place list" where
  "duplicate_catalog =
     [example_place 1 1 0, example_place 1 1 0, example_place 1 1 0, example_place 1 1 0,
      example_place 1 1 0]"

definition uniform_scores :: "nat \<Rightarrow> real" where
  "uniform_scores i = 4 / 5"

text \<open>
  A second run of each capability: the same answers on the example data, other answers
  off it.
\<close>

definition example_geodesic_rerun :: geodesic where
  "example_geodesic_rerun a b = (if snd a = 0 \<and> snd b = 0 then example_geodesic a b else 0)"

definition example_scores_rerun :: "nat \<Rightarrow> real" where
  "example_scores_rerun i = (if i < 3 then example_scores i else 0)"

text \<open>
  A catalog whose ranked order differs from its catalog order: the last entry is the
  most similar and nearest, the first the least similar.
\<close>

definition shuffled_catalog :: "place list" where
  "shuffled_catalog = [example_place 1 2 0, example_place 2 3 0, example_place 3 1 0]"

definition shuffled_scores :: "nat \<Rightarrow> real" where
  "shuffled_scores i = (if i = 0 then 2 / 5 else 4 / 5)"

definition shuffled_ranked :: "place list" where
  "shuffled_ranked =
     [score_place example_geodesic shuffled_scores (0, 0) 2 (example_place 3 1 0),
      score_place example_geodesic shuffled_scores (0, 0) 1 (example_place 2 3 0),
      score_place example_geodesic shuffled_scores (0, 0) 0 (example_place 1 2 0)]"

section \<open>Theorems\<close>

subsection \<open>Route time accounting and sequencing\<close>

lemma getitem_Some [simp]: "getitem k (Some x) = Inr x"
  by (simp add: getitem_def)

lemma getitem_None [simp]: "getitem k None = Inl (KeyError k)"
  by (simp add: getitem_def)

lemma sum_time_required_Some:
  "map time_required ps = map Some ts \<Longrightarrow> sum_time_required ps acc = Inr (acc + sum_list ts)"
proof (induction ps arbitrary: acc ts)
  case Nil
  then show ?case by simp
next
  case (Cons p ps)
  then obtain t ts' where ts: "ts = t # ts'" "time_required p = Some t"
    "map time_required ps = map Some ts'"
    by (cases ts) auto
  show ?case
    using Cons.IH [OF ts(3)] ts by (simp add: add.assoc)
qed

lemma walking_loop_sum:
  "walking_loop geodesic ps cur acc =
     acc + sum_list (map (\<lambda>(a, b). calculate_walking_time (geodesic a b))
                         (zip (cur # map coords ps) (map coords ps)))"
  by (induction ps arbitrary: cur acc) (simp_all add: Let_def add.assoc)

lemma calculate_total_route_time_legs:
  assumes "places \<noteq> []" and "map time_required places = map Some visit_times"
  shows "calculate_total_route_time geodesic places start_coords =
           Inr (sum_list visit_times + legs_walking_minutes geodesic start_coords places / 60,
                legs_walking_minutes geodesic start_coords places,
                legs_walking_minutes geodesic start_coords places / 60)"
proof -
  obtain p ps where places: "places = p # ps"
    using assms(1) by (cases places) auto
  have visit: "sum_time_required places 0 = Inr (sum_list visit_times)"
    using sum_time_required_Some [OF assms(2), of 0] by simp
  have walk: "walking_loop geodesic ps (coords p) (0 + calculate_walking_time (geodesic start_coords (coords p)))
      = legs_walking_minutes geodesic start_coords places"
    by (simp add: walking_loop_sum legs_walking_minutes_def route_legs_def places)
  show ?thesis
    unfolding calculate_total_route_time_def using visit walk
    by (simp add: places Let_def del: sum_time_required.simps)
qed

text \<open>
  C9. For a non-empty ordered list of places that each carry \<^verbatim>\<open>time_required\<close>,
  \<^verbatim>\<open>calculate_total_route_time\<close> computes the visit time as the sum of the places'
  \<^verbatim>\<open>time_required\<close>, returns the walking minutes summed over the leg from start to the
  first place and each consecutive pair, and returns as total route time the visit time
  plus the walking minutes divided by 60.
\<close>

theorem calculate_total_route_time_sums:
  assumes "places \<noteq> []" and "map time_required places = map Some visit_times"
  shows "calculate_total_route_time geodesic places start_coords =
           Inr (sum_list visit_times + legs_walking_minutes geodesic start_coords places / 60,
                legs_walking_minutes geodesic start_coords places,
                legs_walking_minutes geodesic start_coords places / 60)"
  using assms by (rule calculate_total_route_time_legs)

theorem calculate_total_route_time_sums_witness:
  "[example_place 1 1 0, example_place 2 3 0] \<noteq> []
   \<and> calculate_total_route_time example_geodesic
       (map (\<lambda>p. p\<lparr>time_required := Some (2 / 5)\<rparr>) [example_place 1 1 0, example_place 2 3 0])
       (0, 0) = Inr (31 / 20, 45, 3 / 4)"
  using calculate_total_route_time_sums
    [of "map (\<lambda>p. p\<lparr>time_required := Some (2 / 5)\<rparr>) [example_place 1 1 0, example_place 2 3 0]"
        "[2 / 5, 2 / 5]" example_geodesic "(0, 0)"]
  by (simp add: legs_walking_minutes_def route_legs_def example_place_def example_geodesic_def
      calculate_walking_time_def)

lemma min_by_le: "\<forall>m \<in> set (b # ns). key (min_by key b ns) \<le> key m"
proof (induction ns arbitrary: b)
  case Nil
  then show ?case by simp
next
  case (Cons n ns)
  show ?case
  proof (cases "key n < key b")
    case True
    then show ?thesis
      using Cons.IH [of n] by (auto intro: order_trans less_imp_le)
  next
    case False
    then show ?thesis
      using Cons.IH [of b] by (auto intro: order_trans)
  qed
qed

lemma greedy_loop_append:
  "greedy_loop g U tour cur = tour @ greedy_loop g U [] cur"
proof (induction "length U" arbitrary: U tour cur rule: less_induct)
  case less
  show ?case
  proof (cases U)
    case Nil
    then show ?thesis by simp
  next
    case (Cons u us)
    define n where "n = min_by (g cur) u us"
    have "n \<in> set U"
      using min_by_in [of "g cur" u us] by (simp add: n_def Cons)
    then have shorter: "length (remove1 n U) < length U"
      by (simp add: length_remove1) (cases U; simp)
    have "greedy_loop g U tour cur = greedy_loop g (remove1 n U) (tour @ [n]) n"
      by (simp add: n_def Cons Let_def)
    also have "\<dots> = (tour @ [n]) @ greedy_loop g (remove1 n U) [] n"
      using less [OF shorter] .
    also have "\<dots> = tour @ greedy_loop g (remove1 n U) ([] @ [n]) n"
      using less [OF shorter, of "[] @ [n]" n] by simp
    also have "\<dots> = tour @ greedy_loop g U [] cur"
      by (simp add: n_def Cons Let_def)
    finally show ?thesis .
  qed
qed

lemma greedy_loop_nn: "nn_idx g cur U (greedy_loop g U [] cur)"
proof (induction "length U" arbitrary: U cur rule: less_induct)
  case less
  show ?case
  proof (cases U)
    case Nil
    then show ?thesis by simp
  next
    case (Cons u us)
    define n where "n = min_by (g cur) u us"
    have n_in: "n \<in> set U"
      using min_by_in [of "g cur" u us] by (simp add: n_def Cons)
    then have shorter: "length (remove1 n U) < length U"
      by (simp add: length_remove1) (cases U; simp)
    have least: "\<forall>m \<in> set U. g cur n \<le> g cur m"
      using min_by_le [where key = "g cur" and b = u and ns = us] by (simp add: n_def Cons)
    have "greedy_loop g U [] cur = n # greedy_loop g (remove1 n U) [] n"
      using greedy_loop_append [of g "remove1 n U" "[n]" n]
      by (simp add: n_def Cons Let_def)
    then show ?thesis
      using n_in least less [OF shorter, of n] by simp
  qed
qed

lemma nn_idx_mset: "nn_idx g cur U ns \<Longrightarrow> mset ns = mset U"
proof (induction ns arbitrary: cur U)
  case Nil
  then show ?case by simp
next
  case (Cons n ns)
  then have "n \<in> set U" and "mset ns = mset (remove1 n U)"
    by auto
  then show ?case by simp
qed

lemma nn_idx_places:
  assumes "nn_idx g cur U ns"
    and "\<forall>m \<in> set U. g cur m = geodesic pos (coords (f m))"
    and "\<forall>n \<in> set U. \<forall>m \<in> set U. g n m = geodesic (coords (f n)) (coords (f m))"
  shows "nearest_neighbour_tour geodesic pos (image_mset f (mset U)) (map f ns)"
  using assms
proof (induction ns arbitrary: cur U pos)
  case Nil
  then show ?case by simp
next
  case (Cons n ns)
  from Cons.prems(1) have n_in: "n \<in> set U"
    and least: "\<forall>m \<in> set U. g cur n \<le> g cur m"
    and rest: "nn_idx g n (remove1 n U) ns"
    by auto
  have sub: "set (remove1 n U) \<subseteq> set U"
    by (rule set_remove1_subset)
  have "nearest_neighbour_tour geodesic (coords (f n)) (image_mset f (mset (remove1 n U))) (map f ns)"
    using Cons.IH [OF rest, of "coords (f n)"] Cons.prems(3) n_in sub by blast
  moreover have "image_mset f (mset (remove1 n U)) = image_mset f (mset U) - {#f n#}"
    using n_in by (simp add: image_mset_Diff)
  moreover have "\<forall>q \<in># image_mset f (mset U). geodesic pos (coords (f n)) \<le> geodesic pos (coords q)"
    using least Cons.prems(2) n_in by auto
  ultimately show ?case
    using n_in by simp
qed

lemma build_graph_symmetric:
  assumes "\<forall>a b. geodesic a b = geodesic b a"
  shows "build_graph geodesic pts a b = geodesic (pts ! a) (pts ! b)"
proof (cases "a \<le> b")
  case True
  then show ?thesis
    by (simp add: build_graph_def Let_def min_def max_def)
next
  case False
  have "geodesic (pts ! b) (pts ! a) = geodesic (pts ! a) (pts ! b)"
    using assms by blast
  with False show ?thesis
    by (simp add: build_graph_def Let_def min_def max_def)
qed

lemma places_from_nodes: "map (\<lambda>i. places ! (i - 1)) [1 ..< Suc (length places)] = places"
proof -
  have "map (\<lambda>i. places ! (i - 1)) [Suc 0 ..< Suc (length places)]
      = map ((\<lambda>i. places ! (i - 1)) \<circ> Suc) [0 ..< length places]"
    by (simp only: map_Suc_upt [symmetric] map_map)
  also have "\<dots> = map (\<lambda>i. places ! i) [0 ..< length places]"
    by (simp add: comp_def)
  also have "\<dots> = places"
    by (rule map_nth)
  finally show ?thesis by simp
qed

lemma optimize_route_sequence_nodes:
  "length places > 1 \<Longrightarrow>
     optimize_route_sequence geodesic places start_coords =
       map (\<lambda>i. places ! (i - 1))
         (greedy_loop (build_graph geodesic (start_coords # map coords places))
            [1 ..< Suc (length places)] [] 0)"
proof -
  assume "length places > 1"
  have nodes: "remove1 0 [0 ..< Suc (length places)] = [1 ..< Suc (length places)]"
    by (simp add: upt_conv_Cons del: upt_Suc)
  show ?thesis
    using \<open>length places > 1\<close>
    by (simp add: optimize_route_sequence_def greedy_tsp_def Let_def nodes
        greedy_loop_append [of _ _ "[0]"] del: upt_Suc)
qed

text \<open>
  C6. With a symmetric distance, the tour returned by \<^verbatim>\<open>optimize_route_sequence\<close> is a
  greedy nearest-neighbour tour of the given places anchored at the start coordinate: its
  first place is a nearest member of the set to the start, every later place is a nearest
  not-yet-visited member to the previous place, and the start is not part of the tour.
\<close>

theorem optimize_route_sequence_nearest_neighbour:
  assumes "\<forall>a b. geodesic a b = geodesic b a"
  shows "nearest_neighbour_tour geodesic start_coords (mset places)
           (optimize_route_sequence geodesic places start_coords)"
proof (cases "length places \<le> 1")
  case True
  then consider "places = []" | p where "places = [p]"
    by (cases places) (auto simp: Suc_le_eq)
  then show ?thesis
    by cases (simp_all add: optimize_route_sequence_def)
next
  case False
  define pts where "pts = start_coords # map coords places"
  define g where "g = build_graph geodesic pts"
  define U where "U = [1 ..< Suc (length places)]"
  define f where "f = (\<lambda>i. places ! (i - 1))"
  have g: "g a b = geodesic (pts ! a) (pts ! b)" for a b
    using build_graph_symmetric [OF assms] by (simp add: g_def)
  have pt: "pts ! m = coords (f m)" if "m \<in> set U" for m
  proof -
    from that have "1 \<le> m" and "m \<le> length places"
      by (simp_all add: U_def del: upt_Suc)
    then show ?thesis
      by (cases m) (simp_all add: pts_def f_def)
  qed
  have "nn_idx g 0 U (greedy_loop g U [] 0)"
    by (rule greedy_loop_nn)
  then have "nearest_neighbour_tour geodesic start_coords (image_mset f (mset U))
      (map f (greedy_loop g U [] 0))"
  proof (rule nn_idx_places)
    show "\<forall>m \<in> set U. g 0 m = geodesic start_coords (coords (f m))"
      using pt by (simp add: g pts_def)
    show "\<forall>n \<in> set U. \<forall>m \<in> set U. g n m = geodesic (coords (f n)) (coords (f m))"
      using pt by (simp add: g)
  qed
  moreover have "image_mset f (mset U) = mset places"
    using places_from_nodes [of places] by (simp add: f_def U_def flip: mset_map)
  moreover have "optimize_route_sequence geodesic places start_coords = map f (greedy_loop g U [] 0)"
    using optimize_route_sequence_nodes [of places geodesic start_coords] False
    by (simp add: f_def g_def U_def pts_def)
  ultimately show ?thesis by simp
qed

lemma nearest_neighbour_tour_mset:
  "nearest_neighbour_tour geodesic pos unvisited tour \<Longrightarrow> mset tour = unvisited"
proof (induction tour arbitrary: pos unvisited)
  case Nil
  then show ?case by simp
next
  case (Cons p tour)
  then have "p \<in># unvisited"
    and "nearest_neighbour_tour geodesic (coords p) (unvisited - {#p#}) tour"
    by simp_all
  then have "p \<in># unvisited" and "mset tour = unvisited - {#p#}"
    using Cons.IH by blast+
  then show ?case by simp
qed


theorem optimize_route_sequence_nearest_neighbour_witness:
  "(\<forall>a b. example_geodesic a b = example_geodesic b a)
   \<and> optimize_route_sequence example_geodesic
         [example_place 1 2 0, example_place 2 1 0, example_place 3 4 0] (0, 0)
       = [example_place 2 1 0, example_place 1 2 0, example_place 3 4 0]
   \<and> nearest_neighbour_tour example_geodesic (0, 0)
         (mset [example_place 1 2 0, example_place 2 1 0, example_place 3 4 0])
         (optimize_route_sequence example_geodesic
            [example_place 1 2 0, example_place 2 1 0, example_place 3 4 0] (0, 0))"
proof -
  have sym: "\<forall>a b. example_geodesic a b = example_geodesic b a"
    by (simp add: example_geodesic_def abs_minus_commute)
  have "optimize_route_sequence example_geodesic
         [example_place 1 2 0, example_place 2 1 0, example_place 3 4 0] (0, 0)
       = [example_place 2 1 0, example_place 1 2 0, example_place 3 4 0]"
    by (simp add: optimize_route_sequence_def greedy_tsp_def build_graph_def Let_def
        example_geodesic_def example_place_def upt_conv_Cons)
  then show ?thesis
    using sym optimize_route_sequence_nearest_neighbour [OF sym, of "(0, 0)"
        "[example_place 1 2 0, example_place 2 1 0, example_place 3 4 0]"]
    by simp
qed

lemma optimize_route_sequence_mset:
  "mset (optimize_route_sequence geodesic places start_coords) = mset places"
proof (cases "length places \<le> 1")
  case True
  then show ?thesis
    by (simp add: optimize_route_sequence_def)
next
  case False
  define g where "g = build_graph geodesic (start_coords # map coords places)"
  define U where "U = [1 ..< Suc (length places)]"
  have "mset (greedy_loop g U [] 0) = mset U"
    using nn_idx_mset [OF greedy_loop_nn] .
  then have "mset (map (\<lambda>i. places ! (i - 1)) (greedy_loop g U [] 0))
      = mset (map (\<lambda>i. places ! (i - 1)) U)"
    by simp
  also have "\<dots> = mset places"
    using places_from_nodes [of places] by (simp add: U_def)
  finally show ?thesis
    using optimize_route_sequence_nodes [of places geodesic start_coords] False
    by (simp add: g_def U_def)
qed

subsection \<open>Candidate ranking\<close>

lemma insort_key_map:
  "insort_key f (g x) (map g ys) = map g (insort_key (\<lambda>y. f (g y)) x ys)"
  by (induction ys) simp_all

lemma sort_key_map: "sort_key f (map g xs) = map g (sort_key (\<lambda>y. f (g y)) xs)"
  by (induction xs) (simp_all add: insort_key_map)

lemma sort_keys_total:
  "\<forall>x \<in> set xs. sort_key_of x = Inr (k x) \<Longrightarrow> sort_keys xs = Inr (map k xs)"
  by (induction xs) simp_all

lemma list_sort_total:
  assumes "\<forall>x \<in> set xs. sort_key_of x = Inr (k x)"
  shows "list_sort xs = Inr (sort_key k xs)"
proof -
  have "zip (map k xs) xs = map (\<lambda>x. (k x, x)) xs"
    by (induction xs) simp_all
  then have "map snd (sort_key fst (zip (map k xs) xs)) = sort_key k xs"
    by (simp add: sort_key_map comp_def)
  then show ?thesis
    using sort_keys_total [OF assms] by (simp add: list_sort_def)
qed

lemma score_place_fields [simp]:
  "similarity_score (score_place geodesic cosine_scores start_coords i p) = Some (cosine_scores i)"
  "distance_to_start (score_place geodesic cosine_scores start_coords i p)
     = Some (geodesic start_coords (coords p))"
  "walk_time_to_place (score_place geodesic cosine_scores start_coords i p)
     = Some (calculate_walking_time (geodesic start_coords (coords p)) / 60)"
  "time_required (score_place geodesic cosine_scores start_coords i p)
     = Some (calculate_time_for_place p (cosine_scores i))"
  "coords (score_place geodesic cosine_scores start_coords i p) = coords p"
  "place_id (score_place geodesic cosine_scores start_coords i p) = place_id p"
  by (simp_all add: score_place_def Let_def)

lemma scored_score_place: "scored (score_place geodesic cosine_scores start_coords i p)"
  by (simp add: scored_def)

lemma scored_score_places:
  "x \<in> set (score_places geodesic self_places cosine_scores start_coords) \<Longrightarrow> scored x"
  by (auto simp: score_places_def scored_score_place)

lemma sort_key_of_scored: "scored x \<Longrightarrow> sort_key_of x = Inr (rank_key x)"
  by (auto simp: scored_def sort_key_of_def rank_key_def)

lemma places_with_scores_sort:
  "places_with_scores geodesic self_places cosine_scores start_coords =
     Inr (sort_key rank_key (score_places geodesic self_places cosine_scores start_coords))"
  unfolding places_with_scores_def
  by (rule list_sort_total) (simp add: scored_score_places sort_key_of_scored)

lemma rank_key_le:
  assumes "scored a" and "scored b"
  shows "rank_key a \<le> rank_key b \<longleftrightarrow> ranked_before a b"
proof -
  obtain sa da sb db where
    "similarity_score a = Some sa" "distance_to_start a = Some da"
    "similarity_score b = Some sb" "distance_to_start b = Some db"
    using assms by (auto simp: scored_def)
  then show ?thesis
    by (auto simp: rank_key_def ranked_before_def less_eq_prod_def)
qed

lemma rank_key_eq:
  assumes "scored x"
  shows "rank_key x = (- s, d) \<longleftrightarrow> similarity_score x = Some s \<and> distance_to_start x = Some d"
  using assms by (auto simp: scored_def rank_key_def)

subsection \<open>Budgeted selection\<close>

lemma scored_lookups:
  assumes "scored p"
  shows "getitem k (time_required p) = Inr (the (time_required p))"
    and "getitem k (walk_time_to_place p) = Inr (the (walk_time_to_place p))"
  using assms by (auto simp: scored_def)

lemma fill_loop_step:
  assumes "scored p"
  shows "fill_loop geodesic target_count max_time (p # ps) combination current =
     (if length combination \<ge> target_count then Inr (combination, current)
      else if p \<in> set combination then fill_loop geodesic target_count max_time ps combination current
      else if current + marginal_time geodesic combination p \<le> max_time
        then fill_loop geodesic target_count max_time ps (combination @ [p])
               (current + marginal_time geodesic combination p)
        else fill_loop geodesic target_count max_time ps combination current)"
  by (simp add: scored_lookups [OF assms] marginal_time_def Let_def)

lemma fill_loop_total:
  "\<forall>p \<in> set cands. scored p \<Longrightarrow>
     \<exists>comb' t'. fill_loop geodesic target_count max_time cands combination current = Inr (comb', t')"
proof (induction cands arbitrary: combination current)
  case Nil
  then show ?case by simp
next
  case (Cons p ps)
  then have "scored p" and rest: "\<forall>p \<in> set ps. scored p"
    by simp_all
  show ?case
    unfolding fill_loop_step [OF \<open>scored p\<close>]
    using Cons.IH [OF rest] by simp
qed

lemma fill_loop_facts:
  assumes "\<forall>p \<in> set cands. scored p"
    and "fill_loop geodesic target_count max_time cands combination current = Inr (comb', t')"
  shows "length comb' \<le> max (length combination) target_count"
    and "length comb' \<le> length combination + length cands"
    and "set comb' \<subseteq> set combination \<union> set cands"
    and "length combination \<le> length comb'"
    and "combination \<noteq> [] \<longrightarrow> comb' \<noteq> []"
  using assms
proof (induction cands arbitrary: combination current)
  case Nil
  {
    case 1 then show ?case by simp
  next
    case 2 then show ?case by simp
  next
    case 3 then show ?case by simp
  next
    case 4 then show ?case by simp
  next
    case 5 then show ?case by simp
  }
next
  case (Cons p ps)
  {
    case 1
    then have sp: "scored p" and rest: "\<forall>p \<in> set ps. scored p"
      by simp_all
    show ?case
      using "1"(2) Cons.IH(1) [OF rest]
      unfolding fill_loop_step [OF sp]
      by (fastforce split: if_splits)
  next
    case 2
    then have sp: "scored p" and rest: "\<forall>p \<in> set ps. scored p"
      by simp_all
    show ?case
      using "2"(2) Cons.IH(2) [OF rest]
      unfolding fill_loop_step [OF sp]
      by (fastforce split: if_splits)
  next
    case 3
    then have sp: "scored p" and rest: "\<forall>p \<in> set ps. scored p"
      by simp_all
    show ?case
      using "3"(2) Cons.IH(3) [OF rest]
      unfolding fill_loop_step [OF sp]
      by (fastforce split: if_splits)
  next
    case 4
    then have sp: "scored p" and rest: "\<forall>p \<in> set ps. scored p"
      by simp_all
    show ?case
      using "4"(2) Cons.IH(4) [OF rest]
      unfolding fill_loop_step [OF sp]
      by (fastforce split: if_splits)
  next
    case 5
    then have sp: "scored p" and rest: "\<forall>p \<in> set ps. scored p"
      by simp_all
    show ?case
      using "5"(2) Cons.IH(5) [OF rest]
      unfolding fill_loop_step [OF sp]
      by (fastforce split: if_splits)
  }
qed


lemma fill_loop_first:
  assumes "\<forall>p \<in> set cands. scored p"
    and "fill_loop geodesic target_count max_time cands [] current = Inr (comb', t')"
  shows "comb' \<noteq> [] \<longleftrightarrow>
           0 < target_count
           \<and> (\<exists>c \<in> set cands. current + marginal_time geodesic [] c \<le> max_time)"
  using assms
proof (induction cands)
  case Nil
  then show ?case by simp
next
  case (Cons p ps)
  then have sp: "scored p" and rest: "\<forall>p \<in> set ps. scored p"
    by simp_all
  show ?case
  proof (cases "0 < target_count")
    case False
    then show ?thesis
      using Cons.prems(2) unfolding fill_loop_step [OF sp] by simp
  next
    case True
    show ?thesis
    proof (cases "current + marginal_time geodesic [] p \<le> max_time")
      case fits: True
      then have "fill_loop geodesic target_count max_time ps ([] @ [p])
          (current + marginal_time geodesic [] p) = Inr (comb', t')"
        using Cons.prems(2) True unfolding fill_loop_step [OF sp] by simp
      then have "comb' \<noteq> []"
        using fill_loop_facts(5) [OF rest] by blast
      then show ?thesis
        using fits True by auto
    next
      case False
      then have "fill_loop geodesic target_count max_time ps [] current = Inr (comb', t')"
        using Cons.prems(2) True unfolding fill_loop_step [OF sp] by simp
      then show ?thesis
        using Cons.IH [OF rest] False by auto
    qed
  qed
qed

lemma calculate_total_route_time_scored:
  assumes "\<forall>p \<in> set places. scored p"
  shows "calculate_total_route_time geodesic places start_coords =
           Inr (route_total geodesic start_coords places,
                legs_walking_minutes geodesic start_coords places,
                legs_walking_minutes geodesic start_coords places / 60)"
proof (cases "places = []")
  case True
  then show ?thesis
    by (simp add: calculate_total_route_time_def route_total_def legs_walking_minutes_def
        route_legs_def)
next
  case False
  have "\<forall>p \<in> set places. time_required p = Some (the (time_required p))"
    using assms by (auto simp: scored_def)
  then have "map time_required places = map Some (map (\<lambda>p. the (time_required p)) places)"
    by simp
  from calculate_total_route_time_legs [OF False this] show ?thesis
    by (simp add: route_total_def)
qed

lemma pass_comb_fill:
  assumes "\<forall>p \<in> set ranked. scored p"
  shows "\<exists>t. fill_loop geodesic target_count max_time ranked [] 0
           = Inr (pass_comb geodesic max_time ranked target_count, t)"
  using fill_loop_total [OF assms, of geodesic target_count max_time "[]" 0]
  by (auto simp: pass_comb_def)

lemma pass_comb_scored:
  assumes "\<forall>p \<in> set ranked. scored p"
  shows "\<forall>p \<in> set (pass_comb geodesic max_time ranked target_count). scored p"
proof -
  obtain t where "fill_loop geodesic target_count max_time ranked [] 0
      = Inr (pass_comb geodesic max_time ranked target_count, t)"
    using pass_comb_fill [OF assms] by blast
  from fill_loop_facts(3) [OF assms this] show ?thesis
    using assms by auto
qed

lemma tier_a_pass_scored:
  assumes "\<forall>p \<in> set ranked. scored p"
  shows "tier_a_pass geodesic ranked min_time max_time start_coords target_count st =
     Inr (if qualifies geodesic min_time max_time start_coords
               (pass_comb geodesic max_time ranked target_count)
             \<and> (case snd st of None \<Rightarrow> True
                 | Some b \<Rightarrow> mid_dist geodesic min_time max_time start_coords
                              (pass_comb geodesic max_time ranked target_count) < b)
          then (pass_comb geodesic max_time ranked target_count,
                Some (mid_dist geodesic min_time max_time start_coords
                        (pass_comb geodesic max_time ranked target_count)))
          else st)"
proof -
  obtain t where fill: "fill_loop geodesic target_count max_time ranked [] 0
      = Inr (pass_comb geodesic max_time ranked target_count, t)"
    using pass_comb_fill [OF assms] by blast
  have crt: "calculate_total_route_time geodesic
      (pass_comb geodesic max_time ranked target_count) start_coords =
        Inr (route_total geodesic start_coords (pass_comb geodesic max_time ranked target_count),
             legs_walking_minutes geodesic start_coords (pass_comb geodesic max_time ranked target_count),
             legs_walking_minutes geodesic start_coords (pass_comb geodesic max_time ranked target_count) / 60)"
    by (rule calculate_total_route_time_scored) (rule pass_comb_scored [OF assms])
  show ?thesis
  proof (cases "snd st")
    case None
    then show ?thesis
      unfolding tier_a_pass_def fill
      by (simp add: crt qualifies_def mid_dist_def Let_def)
  next
    case (Some b)
    then show ?thesis
      unfolding tier_a_pass_def fill
      by (simp add: crt qualifies_def mid_dist_def Let_def)
  qed
qed

lemma tier_a_pass_inv:
  assumes sc: "\<forall>p \<in> set ranked. scored p"
    and inv: "tier_a_inv geodesic ranked min_time max_time start_coords seen st"
    and pass: "tier_a_pass geodesic ranked min_time max_time start_coords n st = Inr st'"
  shows "tier_a_inv geodesic ranked min_time max_time start_coords (seen @ [n]) st'"
proof (cases "snd st")
  case None
  then show ?thesis
    using inv pass unfolding tier_a_pass_scored [OF sc] tier_a_inv_def
    by (auto split: if_splits)
next
  case (Some b)
  then show ?thesis
    using inv pass unfolding tier_a_pass_scored [OF sc] tier_a_inv_def
    by (auto split: if_splits) force+
qed

lemma tier_a_loop_inv:
  assumes "\<forall>p \<in> set ranked. scored p"
    and "tier_a_inv geodesic ranked min_time max_time start_coords seen st"
  shows "\<exists>st'. tier_a_loop geodesic ranked min_time max_time start_coords ns st = Inr st'
           \<and> tier_a_inv geodesic ranked min_time max_time start_coords (seen @ ns) st'"
  using assms(2)
proof (induction ns arbitrary: seen st)
  case Nil
  then show ?case by simp
next
  case (Cons n ns)
  obtain st1 where pass: "tier_a_pass geodesic ranked min_time max_time start_coords n st = Inr st1"
    using tier_a_pass_scored [OF assms(1)] by blast
  have "tier_a_inv geodesic ranked min_time max_time start_coords (seen @ [n]) st1"
    using tier_a_pass_inv [OF assms(1) Cons.prems pass] .
  from Cons.IH [OF this] show ?case
    using pass by simp
qed

lemma ranked_facts:
  assumes "places_with_scores geodesic self_places cosine_scores start_coords = Inr ranked"
  shows "\<forall>p \<in> set ranked. scored p"
    and "length ranked = length self_places"
    and "mset ranked = mset (score_places geodesic self_places cosine_scores start_coords)"
proof -
  have ranked: "ranked = sort_key rank_key (score_places geodesic self_places cosine_scores start_coords)"
    using assms by (simp add: places_with_scores_sort)
  show "\<forall>p \<in> set ranked. scored p"
    by (simp add: ranked scored_score_places)
  show "length ranked = length self_places"
    by (simp add: ranked score_places_def)
  show "mset ranked = mset (score_places geodesic self_places cosine_scores start_coords)"
    by (simp add: ranked)
qed

lemma budgeted_selector_cases:
  assumes sc: "\<forall>p \<in> set ranked. scored p"
  obtains (tier_a) n where "n \<in> {5, 4, 3}"
      and "qualifies geodesic min_time max_time start_coords (pass_comb geodesic max_time ranked n)"
      and "\<forall>m \<in> {5, 4, 3}.
             qualifies geodesic min_time max_time start_coords (pass_comb geodesic max_time ranked m)
             \<longrightarrow> mid_dist geodesic min_time max_time start_coords (pass_comb geodesic max_time ranked n)
                   \<le> mid_dist geodesic min_time max_time start_coords (pass_comb geodesic max_time ranked m)"
      and "budgeted_selector geodesic ranked min_time max_time start_coords
             = Inr (pass_comb geodesic max_time ranked n)"
  | (fallback) "\<forall>m \<in> {5, 4, 3}.
        \<not> qualifies geodesic min_time max_time start_coords (pass_comb geodesic max_time ranked m)"
      and "budgeted_selector geodesic ranked min_time max_time start_coords
             = Inr (if length (pass_comb geodesic max_time ranked 5) < 3 \<and> 3 \<le> length ranked
                    then tier_c_loop ranked (pass_comb geodesic max_time ranked 5)
                    else pass_comb geodesic max_time ranked 5)"
proof -
  have "tier_a_inv geodesic ranked min_time max_time start_coords [] ([], None)"
    by (simp add: tier_a_inv_def)
  from tier_a_loop_inv [OF sc this, of "[5, 4, 3]"]
  obtain best d where loop: "tier_a_loop geodesic ranked min_time max_time start_coords [5, 4, 3] ([], None)
      = Inr (best, d)"
    and inv: "tier_a_inv geodesic ranked min_time max_time start_coords [5, 4, 3] (best, d)"
    by auto
  show thesis
  proof (cases d)
    case None
    then have none: "\<forall>m \<in> {5, 4, 3}.
        \<not> qualifies geodesic min_time max_time start_coords (pass_comb geodesic max_time ranked m)"
      and best: "best = []"
      using inv by (simp_all add: tier_a_inv_def)
    obtain t where fill: "fill_loop geodesic 5 max_time ranked [] 0
        = Inr (pass_comb geodesic max_time ranked 5, t)"
      using pass_comb_fill [OF sc] by blast
    have "budgeted_selector geodesic ranked min_time max_time start_coords
        = Inr (if length (pass_comb geodesic max_time ranked 5) < 3 \<and> 3 \<le> length ranked
               then tier_c_loop ranked (pass_comb geodesic max_time ranked 5)
               else pass_comb geodesic max_time ranked 5)"
      unfolding budgeted_selector_def loop by (simp add: best fill)
    with none show ?thesis
      by (rule fallback)
  next
    case (Some b)
    then obtain n where n: "n \<in> {5, 4, 3}" and best: "best = pass_comb geodesic max_time ranked n"
      and q: "qualifies geodesic min_time max_time start_coords best"
      and b: "b = mid_dist geodesic min_time max_time start_coords best"
      and least: "\<forall>m \<in> {5, 4, 3}.
        qualifies geodesic min_time max_time start_coords (pass_comb geodesic max_time ranked m)
        \<longrightarrow> b \<le> mid_dist geodesic min_time max_time start_coords (pass_comb geodesic max_time ranked m)"
      using inv by (auto simp: tier_a_inv_def)
    have len: "3 \<le> length best"
      using q by (simp add: qualifies_def)
    then have "best \<noteq> []"
      by auto
    then have "budgeted_selector geodesic ranked min_time max_time start_coords = Inr best"
      unfolding budgeted_selector_def loop using len by simp
    then show ?thesis
      using n q least unfolding b best by (intro tier_a [of n]) auto
  qed
qed


lemma pass_comb_facts:
  assumes "\<forall>p \<in> set ranked. scored p"
  shows "length (pass_comb geodesic max_time ranked n) \<le> n"
    and "length (pass_comb geodesic max_time ranked n) \<le> length ranked"
    and "set (pass_comb geodesic max_time ranked n) \<subseteq> set ranked"
proof -
  obtain t where fill: "fill_loop geodesic n max_time ranked [] 0
      = Inr (pass_comb geodesic max_time ranked n, t)"
    using pass_comb_fill [OF assms] by blast
  show "length (pass_comb geodesic max_time ranked n) \<le> n"
    using fill_loop_facts(1) [OF assms fill] by simp
  show "length (pass_comb geodesic max_time ranked n) \<le> length ranked"
    using fill_loop_facts(2) [OF assms fill] by simp
  show "set (pass_comb geodesic max_time ranked n) \<subseteq> set ranked"
    using fill_loop_facts(3) [OF assms fill] by simp
qed

text \<open>
  C1. Whenever some pass of Tier A (target count 5, 4 or 3) builds an accumulator of at
  least three places whose exact total lies within the window, \<^verbatim>\<open>find_optimal_places\<close>
  returns the accumulator of one of the three passes, its exact total lies within
  \<open>[min_time, max_time]\<close>, and it is at least as close to the midpoint of the window as
  the total of every such window-satisfying pass result.
\<close>

theorem tier_a_window_preference:
  assumes "target_count \<in> {5, 4, 3}"
    and "places_with_scores geodesic self_places cosine_scores start_coords = Inr ranked"
    and "fill_loop geodesic target_count max_time ranked [] 0 = Inr (combination, t)"
    and "3 \<le> length combination"
    and "calculate_total_route_time geodesic combination start_coords = Inr (total_time, wm, wh)"
    and "min_time \<le> total_time" and "total_time \<le> max_time"
  shows "\<exists>best total_best wm' wh' n t'.
           find_optimal_places geodesic self_places cosine_scores min_time max_time start_coords
             = Inr best
           \<and> n \<in> {5, 4, 3}
           \<and> fill_loop geodesic n max_time ranked [] 0 = Inr (best, t')
           \<and> 3 \<le> length best
           \<and> calculate_total_route_time geodesic best start_coords = Inr (total_best, wm', wh')
           \<and> min_time \<le> total_best \<and> total_best \<le> max_time
           \<and> \<bar>total_best - (min_time + max_time) / 2\<bar> \<le> \<bar>total_time - (min_time + max_time) / 2\<bar>"
proof -
  have sc: "\<forall>p \<in> set ranked. scored p"
    using ranked_facts(1) [OF assms(2)] .
  have comb: "pass_comb geodesic max_time ranked target_count = combination"
    by (simp add: pass_comb_def assms(3))
  have "\<forall>p \<in> set combination. scored p"
    using pass_comb_scored [OF sc, of geodesic max_time target_count] comb by simp
  then have total: "total_time = route_total geodesic start_coords combination"
    using calculate_total_route_time_scored [of combination geodesic start_coords] assms(5)
    by simp
  have qual: "qualifies geodesic min_time max_time start_coords
      (pass_comb geodesic max_time ranked target_count)"
    using assms(4,6,7) by (simp add: qualifies_def comb total)
  have "length combination \<le> length ranked"
    using pass_comb_facts(2) [OF sc, of geodesic max_time target_count] comb by simp
  then have "self_places \<noteq> []"
    using assms(4) ranked_facts(2) [OF assms(2)] by auto
  then have fop: "find_optimal_places geodesic self_places cosine_scores min_time max_time start_coords
      = budgeted_selector geodesic ranked min_time max_time start_coords"
    by (simp add: find_optimal_places_def assms(2))
  from sc show ?thesis
  proof (cases rule: budgeted_selector_cases [where geodesic = geodesic and min_time = min_time
        and max_time = max_time and start_coords = start_coords])
    case fallback
    then show ?thesis
      using qual assms(1) by blast
  next
    case (tier_a n)
    define best where "best = pass_comb geodesic max_time ranked n"
    obtain t' where fill: "fill_loop geodesic n max_time ranked [] 0 = Inr (best, t')"
      using pass_comb_fill [OF sc, of geodesic n max_time] by (auto simp: best_def)
    have crt: "calculate_total_route_time geodesic best start_coords =
        Inr (route_total geodesic start_coords best,
             legs_walking_minutes geodesic start_coords best,
             legs_walking_minutes geodesic start_coords best / 60)"
      unfolding best_def
      by (rule calculate_total_route_time_scored) (rule pass_comb_scored [OF sc])
    have q: "3 \<le> length best" "min_time \<le> route_total geodesic start_coords best"
      "route_total geodesic start_coords best \<le> max_time"
      using tier_a(2) by (simp_all add: qualifies_def best_def)
    have "mid_dist geodesic min_time max_time start_coords best
        \<le> mid_dist geodesic min_time max_time start_coords
            (pass_comb geodesic max_time ranked target_count)"
      using tier_a(3) assms(1) qual unfolding best_def by blast
    then have near: "\<bar>route_total geodesic start_coords best - (min_time + max_time) / 2\<bar>
        \<le> \<bar>total_time - (min_time + max_time) / 2\<bar>"
      by (simp add: mid_dist_def comb total)
    have "find_optimal_places geodesic self_places cosine_scores min_time max_time start_coords
        = Inr best"
      using fop tier_a(4) by (simp add: best_def)
    then show ?thesis
      using tier_a(1) fill q crt near by blast
  qed
qed

lemma tier_c_loop_length:
  assumes "distinct cands" and "length best \<le> 3"
    and "3 \<le> card (set cands - set best) + length best"
  shows "length (tier_c_loop cands best) = 3"
  using assms
proof (induction cands arbitrary: best)
  case Nil
  then show ?case by simp
next
  case (Cons p ps)
  show ?case
  proof (cases "3 \<le> length best")
    case True
    then show ?thesis
      using Cons.prems(2) by simp
  next
    case short: False
    show ?thesis
    proof (cases "p \<in> set best")
      case True
      then have "set (p # ps) - set best = set ps - set best"
        by auto
      then show ?thesis
        using Cons.IH [of best] Cons.prems short True by simp
    next
      case False
      have "p \<notin> set ps"
        using Cons.prems(1) by simp
      then have "set ps - set (best @ [p]) = set ps - set best"
        by auto
      moreover have "set (p # ps) - set best = insert p (set ps - set best)"
        using False by auto
      moreover have "card (insert p (set ps - set best)) = Suc (card (set ps - set best))"
        using \<open>p \<notin> set ps\<close> by simp
      ultimately have "3 \<le> card (set ps - set (best @ [p])) + length (best @ [p])"
        using Cons.prems(3) by simp
      then show ?thesis
        using Cons.IH [of "best @ [p]"] Cons.prems(1) short False by simp
    qed
  qed
qed

lemma tier_c_loop_grows: "length best \<le> length (tier_c_loop cands best)"
proof (induction cands arbitrary: best)
  case Nil
  then show ?case by simp
next
  case (Cons p ps)
  show ?case
    using Cons.IH [of best] Cons.IH [of "best @ [p]"] by simp
qed

lemma tier_c_loop_nonempty: "cands \<noteq> [] \<Longrightarrow> tier_c_loop cands best \<noteq> []"
proof (cases cands)
  case Nil
  assume "cands \<noteq> []"
  with Nil show ?thesis by simp
next
  case (Cons p ps)
  show ?thesis
  proof (cases "best = []")
    case True
    then show ?thesis
      using tier_c_loop_grows [of "[p]" ps] by (auto simp: Cons)
  next
    case False
    then show ?thesis
      using tier_c_loop_grows [of best cands] by auto
  qed
qed

lemma unique_ids_distinct_candidates:
  assumes "distinct (map place_id self_places)"
  shows "distinct (score_places geodesic self_places cosine_scores start_coords)"
proof -
  define xs where "xs = score_places geodesic self_places cosine_scores start_coords"
  have "map place_id xs = map place_id self_places"
    unfolding xs_def score_places_def
    by (rule nth_equalityI) (simp_all add: nth_enumerate_eq)
  then have "distinct (map place_id xs)"
    using assms by simp
  then show ?thesis
    by (simp add: distinct_map xs_def)
qed

text \<open>
  C2. For every catalog of at least three places, \<^verbatim>\<open>find_optimal_places\<close> returns at
  least 3 entries, at most 5 and at most as many as the catalog has: between 3 and 5 for
  a catalog of 5 or more, between 3 and N for a catalog of N = 3 or 4. The places of a
  catalog are pairwise different: no two of its scored candidates are the same dict,
  which the unique ids of the data model guarantee.
\<close>

theorem find_optimal_places_cardinality:
  assumes "distinct (score_places geodesic self_places cosine_scores start_coords)"
    and "3 \<le> length self_places"
  shows "\<exists>r. find_optimal_places geodesic self_places cosine_scores min_time max_time start_coords
               = Inr r
             \<and> 3 \<le> length r \<and> length r \<le> 5 \<and> length r \<le> length self_places"
proof -
  define xs where "xs = score_places geodesic self_places cosine_scores start_coords"
  obtain ranked where ranked:
    "places_with_scores geodesic self_places cosine_scores start_coords = Inr ranked"
    by (simp add: places_with_scores_sort)
  note sc = ranked_facts(1) [OF ranked]
  note len = ranked_facts(2) [OF ranked]
  have "distinct xs"
    using assms(1) by (simp add: xs_def)
  then have dist: "distinct ranked"
    using ranked_facts(3) [OF ranked] mset_eq_imp_distinct_iff [of ranked xs]
    by (simp add: xs_def)
  have "self_places \<noteq> []"
    using assms(2) by auto
  then have fop: "find_optimal_places geodesic self_places cosine_scores min_time max_time start_coords
      = budgeted_selector geodesic ranked min_time max_time start_coords"
    by (simp add: find_optimal_places_def ranked)
  from sc show ?thesis
  proof (cases rule: budgeted_selector_cases [where geodesic = geodesic and min_time = min_time
        and max_time = max_time and start_coords = start_coords])
    case (tier_a n)
    have "3 \<le> length (pass_comb geodesic max_time ranked n)"
      using tier_a(2) by (simp add: qualifies_def)
    moreover have "length (pass_comb geodesic max_time ranked n) \<le> 5"
      using pass_comb_facts(1) [OF sc, of geodesic max_time n] tier_a(1) by auto
    moreover have "length (pass_comb geodesic max_time ranked n) \<le> length self_places"
      using pass_comb_facts(2) [OF sc, of geodesic max_time n] len by simp
    ultimately show ?thesis
      using fop tier_a(4) by simp
  next
    case fallback
    define b where "b = pass_comb geodesic max_time ranked 5"
    have b5: "length b \<le> 5" and bn: "length b \<le> length ranked" and bsub: "set b \<subseteq> set ranked"
      using pass_comb_facts [OF sc, of geodesic max_time 5] by (simp_all add: b_def)
    show ?thesis
    proof (cases "length b < 3")
      case True
      have "card (set ranked) - card (set b) \<le> card (set ranked - set b)"
        by (rule diff_card_le_card_Diff) simp
      moreover have "card (set ranked) = length ranked"
        using dist by (rule distinct_card)
      moreover have "card (set b) \<le> length b"
        by (rule card_length)
      ultimately have "3 \<le> card (set ranked - set b) + length b"
        using assms(2) len by linarith
      then have "length (tier_c_loop ranked b) = 3"
        using tier_c_loop_length [OF dist, of b] True by simp
      then show ?thesis
        using fop fallback(2) True assms(2) len by (simp add: b_def)
    next
      case False
      then show ?thesis
        using fop fallback(2) b5 bn len by (simp add: b_def)
    qed
  qed
qed

lemma score_places_nth:
  "score_places geodesic self_places cosine_scores start_coords =
     map (\<lambda>i. score_place geodesic cosine_scores start_coords i (self_places ! i))
       [0 ..< length self_places]"
  unfolding score_places_def
  by (rule nth_equalityI) (simp_all add: nth_enumerate_eq)

lemma marginal_time_score_place:
  "marginal_time geodesic [] (score_place geodesic cosine_scores start_coords i p) =
     calculate_time_for_place p (cosine_scores i)
     + calculate_walking_time (geodesic start_coords (coords p)) / 60"
  by (simp add: marginal_time_def)

text \<open>
  C3 (as amended). For a non-empty catalog \<^verbatim>\<open>find_optimal_places\<close> returns normally, and
  its list is non-empty exactly when the catalog has at least three places or some place
  fits the budget on its own (its dwell time plus the walk from the start is at most
  \<open>max_time\<close>): with one or two places and none that fits, the result is empty.
\<close>

theorem find_optimal_places_nonempty:
  assumes "self_places \<noteq> []"
  shows "\<exists>r. find_optimal_places geodesic self_places cosine_scores min_time max_time start_coords
               = Inr r
             \<and> (r \<noteq> [] \<longleftrightarrow>
                  3 \<le> length self_places
                  \<or> (\<exists>i. i < length self_places
                        \<and> calculate_time_for_place (self_places ! i) (cosine_scores i)
                            + calculate_walking_time
                                (geodesic start_coords (coords (self_places ! i))) / 60
                          \<le> max_time))"
proof -
  define fits where "fits \<longleftrightarrow>
    (\<exists>i. i < length self_places
       \<and> calculate_time_for_place (self_places ! i) (cosine_scores i)
           + calculate_walking_time (geodesic start_coords (coords (self_places ! i))) / 60
         \<le> max_time)"
  obtain ranked where ranked:
    "places_with_scores geodesic self_places cosine_scores start_coords = Inr ranked"
    by (simp add: places_with_scores_sort)
  note sc = ranked_facts(1) [OF ranked]
  note len = ranked_facts(2) [OF ranked]
  have "set ranked = set (score_places geodesic self_places cosine_scores start_coords)"
    using ranked_facts(3) [OF ranked] by (rule mset_eq_setD)
  then have set_ranked: "set ranked =
      (\<lambda>i. score_place geodesic cosine_scores start_coords i (self_places ! i))
        ` {..< length self_places}"
    by (auto simp: score_places_nth)
  have fits_ranked: "(\<exists>c \<in> set ranked. 0 + marginal_time geodesic [] c \<le> max_time) \<longleftrightarrow> fits"
    unfolding set_ranked fits_def by (auto simp: marginal_time_score_place)
  have fop: "find_optimal_places geodesic self_places cosine_scores min_time max_time start_coords
      = budgeted_selector geodesic ranked min_time max_time start_coords"
    using assms by (simp add: find_optimal_places_def ranked)
  have "\<exists>r. budgeted_selector geodesic ranked min_time max_time start_coords = Inr r
      \<and> (r \<noteq> [] \<longleftrightarrow> 3 \<le> length self_places \<or> fits)"
    using sc
  proof (cases rule: budgeted_selector_cases [where geodesic = geodesic and min_time = min_time
        and max_time = max_time and start_coords = start_coords])
    case (tier_a n)
    have "3 \<le> length (pass_comb geodesic max_time ranked n)"
      using tier_a(2) by (simp add: qualifies_def)
    moreover have "length (pass_comb geodesic max_time ranked n) \<le> length self_places"
      using pass_comb_facts(2) [OF sc, of geodesic max_time n] len by simp
    ultimately show ?thesis
      using tier_a(4) by auto
  next
    case fallback
    define b where "b = pass_comb geodesic max_time ranked 5"
    obtain t where "fill_loop geodesic 5 max_time ranked [] 0 = Inr (b, t)"
      using pass_comb_fill [OF sc, of geodesic 5 max_time] by (auto simp: b_def)
    from fill_loop_first [OF sc this] have b_fits: "b \<noteq> [] \<longleftrightarrow> fits"
      using fits_ranked by simp
    show ?thesis
    proof (cases "3 \<le> length self_places")
      case True
      have "ranked \<noteq> []"
        using True len by auto
      then have "tier_c_loop ranked b \<noteq> []"
        by (rule tier_c_loop_nonempty)
      moreover have "\<not> length b < 3 \<Longrightarrow> b \<noteq> []"
        by auto
      ultimately show ?thesis
        using fallback(2) True len by (auto simp: b_def)
    next
      case False
      then show ?thesis
        using fallback(2) b_fits len by (simp add: b_def)
    qed
  qed
  then show ?thesis
    unfolding fop fits_def .
qed

subsection \<open>The selector on example catalogs\<close>

lemma example_ranked:
  "places_with_scores example_geodesic example_catalog example_scores (0, 0)
     = Inr (score_places example_geodesic example_catalog example_scores (0, 0))"
  by (simp add: places_with_scores_sort score_places_def rank_key_def less_eq_prod_def
      example_catalog_def example_scores_def example_geodesic_def example_place_def)

lemma example_fill:
  "fill_loop example_geodesic 5 2
     (score_places example_geodesic example_catalog example_scores (0, 0)) [] 0
   = Inr (score_places example_geodesic example_catalog example_scores (0, 0), 17 / 10)"
  by (simp add: score_places_def score_place_def example_catalog_def example_scores_def
      example_geodesic_def example_place_def calculate_walking_time_def
      calculate_time_for_place_def Let_def)

lemma example_total:
  "calculate_total_route_time example_geodesic
     (score_places example_geodesic example_catalog example_scores (0, 0)) (0, 0)
   = Inr (17 / 10, 45, 3 / 4)"
  by (simp add: calculate_total_route_time_def score_places_def score_place_def
      example_catalog_def example_scores_def
      example_geodesic_def example_place_def calculate_walking_time_def
      calculate_time_for_place_def Let_def)


lemma example_fill_4:
  "fill_loop example_geodesic 4 2
     (score_places example_geodesic example_catalog example_scores (0, 0)) [] 0
   = Inr (score_places example_geodesic example_catalog example_scores (0, 0), 17 / 10)"
  by (simp add: score_places_def score_place_def example_catalog_def example_scores_def
      example_geodesic_def example_place_def calculate_walking_time_def
      calculate_time_for_place_def Let_def)

lemma example_fill_3:
  "fill_loop example_geodesic 3 2
     (score_places example_geodesic example_catalog example_scores (0, 0)) [] 0
   = Inr (score_places example_geodesic example_catalog example_scores (0, 0), 17 / 10)"
  by (simp add: score_places_def score_place_def example_catalog_def example_scores_def
      example_geodesic_def example_place_def calculate_walking_time_def
      calculate_time_for_place_def Let_def)

lemma example_length:
  "length (score_places example_geodesic example_catalog example_scores (0, 0)) = 3"
  by (simp add: score_places_def example_catalog_def)

lemma example_selected:
  "find_optimal_places example_geodesic example_catalog example_scores 1 2 (0, 0)
     = Inr (score_places example_geodesic example_catalog example_scores (0, 0))"
proof -
  have "example_catalog \<noteq> []"
    by (simp add: example_catalog_def)
  moreover have "score_places example_geodesic example_catalog example_scores (0, 0) \<noteq> []"
    using example_length by auto
  ultimately show ?thesis
    by (simp add: find_optimal_places_def example_ranked budgeted_selector_def tier_a_pass_def
        example_fill example_fill_4 example_fill_3 example_total example_length)
qed

theorem tier_a_window_preference_witness:
  "places_with_scores example_geodesic example_catalog example_scores (0, 0)
     = Inr (score_places example_geodesic example_catalog example_scores (0, 0))
   \<and> fill_loop example_geodesic 5 2
        (score_places example_geodesic example_catalog example_scores (0, 0)) [] 0
      = Inr (score_places example_geodesic example_catalog example_scores (0, 0), 17 / 10)
   \<and> length (score_places example_geodesic example_catalog example_scores (0, 0)) = 3
   \<and> calculate_total_route_time example_geodesic
        (score_places example_geodesic example_catalog example_scores (0, 0)) (0, 0)
      = Inr (17 / 10, 45, 3 / 4)
   \<and> find_optimal_places example_geodesic example_catalog example_scores 1 2 (0, 0)
      = Inr (score_places example_geodesic example_catalog example_scores (0, 0))
   \<and> (\<exists>best total_best wm' wh' n t'.
         find_optimal_places example_geodesic example_catalog example_scores 1 2 (0, 0) = Inr best
         \<and> n \<in> {5, 4, 3}
         \<and> fill_loop example_geodesic n 2
              (score_places example_geodesic example_catalog example_scores (0, 0)) [] 0
            = Inr (best, t')
         \<and> 3 \<le> length best
         \<and> calculate_total_route_time example_geodesic best (0, 0) = Inr (total_best, wm', wh')
         \<and> 1 \<le> total_best \<and> total_best \<le> 2
         \<and> \<bar>total_best - (1 + 2) / 2\<bar> \<le> \<bar>17 / 10 - (1 + 2) / 2\<bar>)"
proof -
  have "\<exists>best total_best wm' wh' n t'.
         find_optimal_places example_geodesic example_catalog example_scores 1 2 (0, 0) = Inr best
         \<and> n \<in> {5, 4, 3}
         \<and> fill_loop example_geodesic n 2
              (score_places example_geodesic example_catalog example_scores (0, 0)) [] 0
            = Inr (best, t')
         \<and> 3 \<le> length best
         \<and> calculate_total_route_time example_geodesic best (0, 0) = Inr (total_best, wm', wh')
         \<and> 1 \<le> total_best \<and> total_best \<le> 2
         \<and> \<bar>total_best - (1 + 2) / 2\<bar> \<le> \<bar>17 / 10 - (1 + 2) / 2\<bar>"
    by (rule tier_a_window_preference [OF _ example_ranked example_fill _ example_total])
      (simp_all add: example_length)
  then show ?thesis
    using example_ranked example_fill example_length example_total example_selected
    by (simp only: simp_thms)
qed

theorem find_optimal_places_cardinality_witness:
  "distinct (map place_id example_catalog)
   \<and> distinct (score_places example_geodesic example_catalog example_scores (0, 0))
   \<and> 3 \<le> length example_catalog
   \<and> (\<exists>r. find_optimal_places example_geodesic example_catalog example_scores 1 2 (0, 0) = Inr r
          \<and> 3 \<le> length r \<and> length r \<le> 5 \<and> length r \<le> length example_catalog)"
proof -
  have ids: "distinct (map place_id example_catalog)" and l: "3 \<le> length example_catalog"
    by (simp_all add: example_catalog_def example_place_def)
  have d: "distinct (score_places example_geodesic example_catalog example_scores (0, 0))"
    using ids by (rule unique_ids_distinct_candidates)
  show ?thesis
    using ids d l
      find_optimal_places_cardinality [OF d l, of 1 2]
    by simp
qed

lemma duplicate_ranked:
  "places_with_scores example_geodesic duplicate_catalog uniform_scores (0, 0)
     = Inr (replicate 5 (score_place example_geodesic uniform_scores (0, 0) 0 (example_place 1 1 0)))"
  by (simp add: places_with_scores_sort score_places_def rank_key_def less_eq_prod_def
      duplicate_catalog_def score_place_def uniform_scores_def numeral_eq_Suc)

lemma duplicate_fill:
  "n \<in> {5, 4, 3} \<Longrightarrow>
   fill_loop example_geodesic n 2
     (replicate 5 (score_place example_geodesic uniform_scores (0, 0) 0 (example_place 1 1 0))) [] 0
   = Inr ([score_place example_geodesic uniform_scores (0, 0) 0 (example_place 1 1 0)], 13 / 20)"
  by (auto simp: numeral_eq_Suc example_geodesic_def example_place_def calculate_walking_time_def
      calculate_time_for_place_def uniform_scores_def score_place_def Let_def)

text \<open>
  Outside the data model: five rows that are one and the same place hold a single
  place, and the selector returns it once.
\<close>

lemma duplicate_rows_selected_once:
  "length duplicate_catalog = 5
   \<and> find_optimal_places example_geodesic duplicate_catalog uniform_scores 1 2 (0, 0)
     = Inr [score_place example_geodesic uniform_scores (0, 0) 0 (example_place 1 1 0)]"
proof -
  have "duplicate_catalog \<noteq> []" and len: "length duplicate_catalog = 5"
    by (simp_all add: duplicate_catalog_def)
  then show ?thesis
    by (simp add: find_optimal_places_def duplicate_ranked budgeted_selector_def tier_a_pass_def
        duplicate_fill) (simp add: numeral_eq_Suc)
qed

text \<open>
  C3 as stated fails: with a single place whose dwell time plus walk from the start
  exceeds \<open>max_time\<close>, the selector returns the empty list.
\<close>

theorem find_optimal_places_nonempty_counterexample:
  "find_optimal_places example_geodesic [example_place 1 1 0] uniform_scores (1 / 10) (1 / 5) (0, 0)
     = Inr []"
  by (simp add: find_optimal_places_def places_with_scores_sort score_places_def
      budgeted_selector_def tier_a_pass_def score_place_def uniform_scores_def
      example_geodesic_def example_place_def calculate_walking_time_def
      calculate_time_for_place_def calculate_total_route_time_def Let_def)

theorem find_optimal_places_nonempty_witness:
  "[example_place 1 1 0] \<noteq> []
   \<and> find_optimal_places example_geodesic [example_place 1 1 0] uniform_scores (1 / 10) 1 (0, 0)
     = Inr [score_place example_geodesic uniform_scores (0, 0) 0 (example_place 1 1 0)]
   \<and> (\<exists>r. find_optimal_places example_geodesic [example_place 1 1 0] uniform_scores (1 / 10) 1 (0, 0)
            = Inr r
          \<and> (r \<noteq> [] \<longleftrightarrow>
               3 \<le> length [example_place 1 1 0]
               \<or> (\<exists>i. i < length [example_place 1 1 0]
                     \<and> calculate_time_for_place ([example_place 1 1 0] ! i) (uniform_scores i)
                         + calculate_walking_time
                             (example_geodesic (0, 0) (coords ([example_place 1 1 0] ! i))) / 60
                       \<le> 1)))"
proof -
  have ne: "[example_place 1 1 0] \<noteq> []"
    by simp
  have "find_optimal_places example_geodesic [example_place 1 1 0] uniform_scores (1 / 10) 1 (0, 0)
     = Inr [score_place example_geodesic uniform_scores (0, 0) 0 (example_place 1 1 0)]"
    by (simp add: find_optimal_places_def places_with_scores_sort score_places_def
      budgeted_selector_def tier_a_pass_def score_place_def uniform_scores_def
      example_geodesic_def example_place_def calculate_walking_time_def
      calculate_time_for_place_def calculate_total_route_time_def Let_def)
  then show ?thesis
    using ne find_optimal_places_nonempty
      [OF ne, of example_geodesic uniform_scores "1 / 10" 1 "(0, 0)"]
    by (simp only: simp_thms)
qed

subsection \<open>Ranked order and the selection tiers\<close>

lemma accept_step_full:
  "target_count \<le> length (fst st) \<Longrightarrow> foldl (accept_step geodesic target_count max_hours) st cs = st"
  by (induction cs) (simp_all add: accept_step_def Let_def)

lemma fill_loop_walk:
  "\<forall>p \<in> set cands. scored p \<Longrightarrow>
     fill_loop geodesic target_count max_time cands combination current
       = Inr (foldl (accept_step geodesic target_count max_time) (combination, current) cands)"
proof (induction cands arbitrary: combination current)
  case Nil
  then show ?case by simp
next
  case (Cons p ps)
  then have sp: "scored p" and rest: "\<forall>p \<in> set ps. scored p"
    by simp_all
  show ?case
  proof (cases "target_count \<le> length combination")
    case True
    then have "foldl (accept_step geodesic target_count max_time) (combination, current) (p # ps)
        = (combination, current)"
      by (intro accept_step_full) simp
    then show ?thesis
      unfolding fill_loop_step [OF sp] using True by simp
  next
    case False
    then show ?thesis
      unfolding fill_loop_step [OF sp] using Cons.IH [OF rest]
      by (simp add: accept_step_def Let_def)
  qed
qed

lemma pass_comb_walk:
  "\<forall>p \<in> set ranked. scored p \<Longrightarrow>
     pass_comb geodesic max_time ranked n = walk_ranked geodesic n max_time ranked"
  by (simp add: pass_comb_def walk_ranked_def fill_loop_walk split: prod.splits)

lemma top_up_full: "3 \<le> length result \<Longrightarrow> foldl top_up_step result cs = result"
  by (induction cs) (simp_all add: top_up_step_def)

lemma tier_c_loop_top_up: "tier_c_loop cands best = top_up cands best"
proof (induction cands arbitrary: best)
  case Nil
  then show ?case by (simp add: top_up_def)
next
  case (Cons p ps)
  show ?case
  proof (cases "3 \<le> length best")
    case True
    then show ?thesis
      using top_up_full [of best "p # ps"] by (simp add: top_up_def)
  next
    case False
    then show ?thesis
      using Cons.IH [of best] Cons.IH [of "best @ [p]"]
      by (simp add: top_up_def top_up_step_def)
  qed
qed

text \<open>
  C7. The candidate list is a rearrangement of the scored catalog that is sorted by
  similarity descending and then distance from start ascending; candidates that tie on
  both keys keep their catalog order. Every selection tier walks this list front to
  back: the list \<^verbatim>\<open>find_optimal_places\<close> returns is the walk of the ranked list for
  target count 5, 4 or 3, or the walk for 5 topped up from the ranked list.
\<close>

theorem places_with_scores_ranked:
  "\<exists>ranked r.
     places_with_scores geodesic self_places cosine_scores start_coords = Inr ranked
     \<and> mset ranked = mset (score_places geodesic self_places cosine_scores start_coords)
     \<and> sorted_wrt ranked_before ranked
     \<and> (\<forall>s d. tied_at s d ranked
               = tied_at s d (score_places geodesic self_places cosine_scores start_coords))
     \<and> find_optimal_places geodesic self_places cosine_scores min_time max_time start_coords = Inr r
     \<and> ((\<exists>n \<in> {5, 4, 3}. r = walk_ranked geodesic n max_time ranked \<and> 3 \<le> length r)
        \<or> r = (if length (walk_ranked geodesic 5 max_time ranked) < 3 \<and> 3 \<le> length ranked
               then top_up ranked (walk_ranked geodesic 5 max_time ranked)
               else walk_ranked geodesic 5 max_time ranked))"
proof -
  define xs where "xs = score_places geodesic self_places cosine_scores start_coords"
  define ranked where "ranked = sort_key rank_key xs"
  have ranked: "places_with_scores geodesic self_places cosine_scores start_coords = Inr ranked"
    by (simp add: places_with_scores_sort ranked_def xs_def)
  have perm: "mset ranked = mset xs"
    by (simp add: ranked_def)
  have sc: "\<forall>x \<in> set ranked. scored x"
    using ranked_facts(1) [OF ranked] .
  have "sorted (map rank_key ranked)"
    by (simp add: ranked_def)
  then have "sorted_wrt (\<lambda>a b. rank_key a \<le> rank_key b) ranked"
    by (simp add: sorted_map)
  then have sorted: "sorted_wrt ranked_before ranked"
    by (rule sorted_wrt_mono_rel [rotated]) (simp add: rank_key_le sc)
  have tied: "tied_at s d ranked = tied_at s d xs" for s d
  proof -
    have "filter (\<lambda>x. rank_key x = (- s, d)) (sort_key rank_key xs)
        = filter (\<lambda>x. rank_key x = (- s, d)) xs"
      by (rule sort_key_stable)
    moreover have "filter (\<lambda>x. rank_key x = (- s, d)) ranked = tied_at s d ranked"
      unfolding tied_at_def by (rule filter_cong) (simp_all add: rank_key_eq sc)
    moreover have "filter (\<lambda>x. rank_key x = (- s, d)) xs = tied_at s d xs"
      unfolding tied_at_def
      by (rule filter_cong) (simp_all add: rank_key_eq scored_score_places xs_def)
    ultimately show ?thesis
      by (simp add: ranked_def)
  qed
  have walk: "\<exists>r. find_optimal_places geodesic self_places cosine_scores min_time max_time start_coords
        = Inr r
      \<and> ((\<exists>n \<in> {5, 4, 3}. r = walk_ranked geodesic n max_time ranked \<and> 3 \<le> length r)
         \<or> r = (if length (walk_ranked geodesic 5 max_time ranked) < 3 \<and> 3 \<le> length ranked
                then top_up ranked (walk_ranked geodesic 5 max_time ranked)
                else walk_ranked geodesic 5 max_time ranked))"
  proof (cases "self_places = []")
    case True
    then have "ranked = []"
      by (simp add: ranked_def xs_def score_places_def)
    then show ?thesis
      using True by (simp add: find_optimal_places_def walk_ranked_def)
  next
    case False
    then have fop: "find_optimal_places geodesic self_places cosine_scores min_time max_time start_coords
        = budgeted_selector geodesic ranked min_time max_time start_coords"
      by (simp add: find_optimal_places_def ranked)
    from sc show ?thesis
    proof (cases rule: budgeted_selector_cases [where geodesic = geodesic and min_time = min_time
          and max_time = max_time and start_coords = start_coords])
      case (tier_a n)
      have "3 \<le> length (pass_comb geodesic max_time ranked n)"
        using tier_a(2) by (simp add: qualifies_def)
      then show ?thesis
        using fop tier_a(1,4) by (auto simp: pass_comb_walk [OF sc])
    next
      case fallback
      then show ?thesis
        using fop by (simp add: pass_comb_walk [OF sc] tier_c_loop_top_up)
    qed
  qed
  show ?thesis
    using ranked perm sorted tied walk unfolding xs_def by blast
qed

lemma shuffled_ranked:
  "places_with_scores example_geodesic shuffled_catalog shuffled_scores (0, 0) = Inr shuffled_ranked"
  by (simp add: places_with_scores_sort score_places_def rank_key_def less_eq_prod_def
      shuffled_catalog_def shuffled_ranked_def shuffled_scores_def
      example_geodesic_def example_place_def numeral_2_eq_2)

lemma shuffled_fill:
  "n \<in> {5, 4, 3} \<Longrightarrow>
     fill_loop example_geodesic n 3 shuffled_ranked [] 0 = Inr (shuffled_ranked, 41 / 20)"
  by (elim insertE emptyE)
    (simp_all add: shuffled_ranked_def score_place_def shuffled_scores_def
      example_geodesic_def example_place_def calculate_walking_time_def
      calculate_time_for_place_def Let_def)

lemma shuffled_total:
  "calculate_total_route_time example_geodesic shuffled_ranked (0, 0) = Inr (41 / 20, 60, 1)"
  by (simp add: calculate_total_route_time_def shuffled_ranked_def score_place_def
      shuffled_scores_def example_geodesic_def example_place_def calculate_walking_time_def
      calculate_time_for_place_def Let_def)

lemma shuffled_selected:
  "find_optimal_places example_geodesic shuffled_catalog shuffled_scores 1 3 (0, 0)
     = Inr shuffled_ranked"
proof -
  have "shuffled_catalog \<noteq> []"
    by (simp add: shuffled_catalog_def)
  moreover have "length shuffled_ranked = 3"
    by (simp add: shuffled_ranked_def)
  moreover have "shuffled_ranked \<noteq> []"
    by (simp add: shuffled_ranked_def)
  ultimately show ?thesis
    by (simp add: find_optimal_places_def shuffled_ranked budgeted_selector_def tier_a_pass_def
        shuffled_fill shuffled_total)
qed

lemma shuffled_walk: "walk_ranked example_geodesic 5 3 shuffled_ranked = shuffled_ranked"
  using fill_loop_walk [of shuffled_ranked example_geodesic 5 3 "[]" 0] shuffled_fill [of 5]
  by (simp add: walk_ranked_def shuffled_ranked_def scored_score_place)

theorem places_with_scores_ranked_witness:
  "places_with_scores example_geodesic shuffled_catalog shuffled_scores (0, 0) = Inr shuffled_ranked
   \<and> sorted_wrt ranked_before shuffled_ranked
   \<and> find_optimal_places example_geodesic shuffled_catalog shuffled_scores 1 3 (0, 0)
      = Inr shuffled_ranked
   \<and> walk_ranked example_geodesic 5 3 shuffled_ranked = shuffled_ranked
   \<and> shuffled_ranked \<noteq> score_places example_geodesic shuffled_catalog shuffled_scores (0, 0)"
proof -
  have "shuffled_ranked \<noteq> score_places example_geodesic shuffled_catalog shuffled_scores (0, 0)"
    by (simp add: shuffled_ranked_def score_places_def shuffled_catalog_def score_place_def
        example_place_def Let_def)
  then show ?thesis
    using places_with_scores_ranked
      [of example_geodesic shuffled_catalog shuffled_scores "(0, 0)" 1 3]
    unfolding shuffled_ranked shuffled_selected shuffled_walk
    by auto
qed

subsection \<open>Dependence on the external capabilities\<close>

lemma min_by_cong:
  "\<forall>n \<in> set (b # ns). key n = key' n \<Longrightarrow> min_by key b ns = min_by key' b ns"
proof (induction ns arbitrary: b)
  case Nil
  then show ?case by simp
next
  case (Cons n ns)
  then have "key n = key' n" and "key b = key' b"
    by simp_all
  moreover have "min_by key n ns = min_by key' n ns"
    using Cons.prems by (intro Cons.IH) simp
  moreover have "min_by key b ns = min_by key' b ns"
    using Cons.prems by (intro Cons.IH) simp
  ultimately show ?case by simp
qed

lemma greedy_loop_cong:
  assumes "\<forall>a \<in> insert cur (set U). \<forall>b \<in> set U. g a b = g' a b"
  shows "greedy_loop g U tour cur = greedy_loop g' U tour cur"
  using assms
proof (induction "length U" arbitrary: U tour cur rule: less_induct)
  case less
  show ?case
  proof (cases U)
    case Nil
    then show ?thesis by simp
  next
    case (Cons u us)
    define n where "n = min_by (g cur) u us"
    have same: "min_by (g' cur) u us = n"
      unfolding n_def using less.prems by (intro min_by_cong [symmetric]) (simp add: Cons)
    have n_in: "n \<in> set U"
      using min_by_in [of "g cur" u us] by (simp add: n_def Cons)
    then have shorter: "length (remove1 n U) < length U"
      by (simp add: length_remove1) (cases U; simp)
    have sub: "set (remove1 n U) \<subseteq> set U"
      by (rule set_remove1_subset)
    have "\<forall>a \<in> insert n (set (remove1 n U)). \<forall>b \<in> set (remove1 n U). g a b = g' a b"
      using less.prems n_in sub by blast
    then have "greedy_loop g (remove1 n U) (tour @ [n]) n = greedy_loop g' (remove1 n U) (tour @ [n]) n"
      by (rule less.hyps [OF shorter])
    then show ?thesis
      using same by (simp add: Cons n_def Let_def)
  qed
qed

lemma build_graph_cong:
  assumes "\<forall>x \<in> set pts. \<forall>y \<in> set pts. geodesic x y = geodesic' x y"
    and "a < length pts" and "b < length pts"
  shows "build_graph geodesic pts a b = build_graph geodesic' pts a b"
proof -
  have "pts ! min a b \<in> set pts" and "pts ! max a b \<in> set pts"
    using assms(2,3) by (simp_all add: min_def max_def)
  then show ?thesis
    using assms(1) by (simp add: build_graph_def Let_def)
qed

lemma optimize_route_sequence_cong:
  assumes "same_distances geodesic geodesic' start_coords places"
  shows "optimize_route_sequence geodesic places start_coords
       = optimize_route_sequence geodesic' places start_coords"
proof (cases "length places \<le> 1")
  case True
  then show ?thesis
    by (simp add: optimize_route_sequence_def)
next
  case False
  define pts where "pts = start_coords # map coords places"
  define U where "U = [1 ..< Suc (length places)]"
  have "\<forall>x \<in> set pts. \<forall>y \<in> set pts. geodesic x y = geodesic' x y"
    using assms by (simp add: same_distances_def pts_def)
  then have "\<forall>a \<in> insert 0 (set U). \<forall>b \<in> set U.
      build_graph geodesic pts a b = build_graph geodesic' pts a b"
    by (auto intro!: build_graph_cong simp: U_def pts_def)
  then have "greedy_loop (build_graph geodesic pts) U [] 0
      = greedy_loop (build_graph geodesic' pts) U [] 0"
    by (rule greedy_loop_cong)
  then show ?thesis
    using False optimize_route_sequence_nodes [of places geodesic start_coords]
      optimize_route_sequence_nodes [of places geodesic' start_coords]
    by (simp add: pts_def U_def)
qed

lemma walking_loop_cong:
  assumes "\<forall>a \<in> insert cur (coords ` set ps). \<forall>b \<in> coords ` set ps. geodesic a b = geodesic' a b"
  shows "walking_loop geodesic ps cur acc = walking_loop geodesic' ps cur acc"
  using assms
proof (induction ps arbitrary: cur acc)
  case Nil
  then show ?case by simp
next
  case (Cons p ps)
  have "geodesic cur (coords p) = geodesic' cur (coords p)"
    using Cons.prems by simp
  moreover have "walking_loop geodesic ps (coords p) acc' = walking_loop geodesic' ps (coords p) acc'"
    for acc'
    using Cons.prems by (intro Cons.IH) auto
  ultimately show ?case
    by (simp add: Let_def)
qed

lemma calculate_total_route_time_cong:
  assumes "same_distances geodesic geodesic' start_coords places"
  shows "calculate_total_route_time geodesic places start_coords
       = calculate_total_route_time geodesic' places start_coords"
proof (cases places)
  case Nil
  then show ?thesis
    by (simp add: calculate_total_route_time_def)
next
  case (Cons p ps)
  have "geodesic start_coords (coords p) = geodesic' start_coords (coords p)"
    using assms by (simp add: same_distances_def Cons)
  moreover have "walking_loop geodesic ps (coords p) acc = walking_loop geodesic' ps (coords p) acc"
    for acc
    using assms by (intro walking_loop_cong) (auto simp: same_distances_def Cons)
  ultimately show ?thesis
    by (simp add: calculate_total_route_time_def Cons Let_def split: sum.splits)
qed

lemma same_distances_subset:
  assumes "same_distances geodesic geodesic' start_coords places" and "set qs \<subseteq> set places"
  shows "same_distances geodesic geodesic' start_coords qs"
  using assms unfolding same_distances_def by blast

lemma fill_loop_cong:
  assumes "same_distances geodesic geodesic' start_coords (cands @ combination)"
  shows "fill_loop geodesic n max_time cands combination current
       = fill_loop geodesic' n max_time cands combination current"
  using assms
proof (induction cands arbitrary: combination current)
  case Nil
  then show ?case by simp
next
  case (Cons p ps)
  have rest: "same_distances geodesic geodesic' start_coords (ps @ c)"
    if "set c \<subseteq> set (p # combination)" for c
    using Cons.prems that by (intro same_distances_subset [OF Cons.prems]) auto
  have skip: "fill_loop geodesic n max_time ps combination t = fill_loop geodesic' n max_time ps combination t"
    for t
    by (intro Cons.IH rest) auto
  have take: "fill_loop geodesic n max_time ps (combination @ [p]) t
      = fill_loop geodesic' n max_time ps (combination @ [p]) t" for t
    by (intro Cons.IH rest) auto
  show ?case
  proof (cases "combination = []")
    case True
    then show ?thesis
      using skip take by (simp add: Let_def split: sum.splits)
  next
    case False
    then have "last combination \<in> set combination"
      by simp
    then have "geodesic (coords (last combination)) (coords p)
        = geodesic' (coords (last combination)) (coords p)"
      using Cons.prems by (simp add: same_distances_def)
    then show ?thesis
      using skip take False by (simp add: Let_def split: sum.splits)
  qed
qed

lemma tier_a_pass_cong:
  assumes "\<forall>p \<in> set ranked. scored p"
    and "same_distances geodesic geodesic' start_coords ranked"
  shows "tier_a_pass geodesic ranked min_time max_time start_coords n st
       = tier_a_pass geodesic' ranked min_time max_time start_coords n st"
proof -
  obtain t where fill: "fill_loop geodesic n max_time ranked [] 0
      = Inr (pass_comb geodesic max_time ranked n, t)"
    using pass_comb_fill [OF assms(1)] by blast
  have "fill_loop geodesic n max_time ranked [] 0 = fill_loop geodesic' n max_time ranked [] 0"
    using assms(2) by (intro fill_loop_cong) simp
  then have fill': "fill_loop geodesic' n max_time ranked [] 0
      = Inr (pass_comb geodesic max_time ranked n, t)"
    using fill by simp
  have "same_distances geodesic geodesic' start_coords (pass_comb geodesic max_time ranked n)"
    using assms(2) pass_comb_facts(3) [OF assms(1)] by (rule same_distances_subset)
  then have "calculate_total_route_time geodesic (pass_comb geodesic max_time ranked n) start_coords
      = calculate_total_route_time geodesic' (pass_comb geodesic max_time ranked n) start_coords"
    by (rule calculate_total_route_time_cong)
  then show ?thesis
    by (simp add: tier_a_pass_def fill fill')
qed

lemma tier_a_loop_cong:
  assumes "\<forall>p \<in> set ranked. scored p"
    and "same_distances geodesic geodesic' start_coords ranked"
  shows "tier_a_loop geodesic ranked min_time max_time start_coords ns st
       = tier_a_loop geodesic' ranked min_time max_time start_coords ns st"
proof (induction ns arbitrary: st)
  case Nil
  then show ?case by simp
next
  case (Cons n ns)
  then show ?case
    by (simp add: tier_a_pass_cong [OF assms] split: sum.splits)
qed

lemma budgeted_selector_cong:
  assumes "\<forall>p \<in> set ranked. scored p"
    and "same_distances geodesic geodesic' start_coords ranked"
  shows "budgeted_selector geodesic ranked min_time max_time start_coords
       = budgeted_selector geodesic' ranked min_time max_time start_coords"
proof -
  have "fill_loop geodesic 5 max_time ranked [] 0 = fill_loop geodesic' 5 max_time ranked [] 0"
    using assms(2) by (intro fill_loop_cong) simp
  then show ?thesis
    by (simp only: budgeted_selector_def tier_a_loop_cong [OF assms])
qed

lemma score_places_cong:
  assumes "same_scores cosine_scores cosine_scores' self_places"
    and "same_distances geodesic geodesic' start_coords self_places"
  shows "score_places geodesic self_places cosine_scores start_coords
       = score_places geodesic' self_places cosine_scores' start_coords"
proof -
  have "score_place geodesic cosine_scores start_coords i (self_places ! i)
      = score_place geodesic' cosine_scores' start_coords i (self_places ! i)"
    if "i < length self_places" for i
  proof -
    have "cosine_scores i = cosine_scores' i"
      using assms(1) that by (simp add: same_scores_def)
    moreover have "geodesic start_coords (coords (self_places ! i))
        = geodesic' start_coords (coords (self_places ! i))"
      using assms(2) that by (simp add: same_distances_def)
    ultimately show ?thesis
      by (simp add: score_place_def)
  qed
  then show ?thesis
    by (simp add: score_places_nth)
qed

text \<open>
  The results depend on the two external capabilities only through their answers on the
  request: the scores of the catalog indices and the distances between the start and the
  places.
\<close>

lemma capability_answers_determine_results:
  assumes "same_scores cosine_scores cosine_scores' self_places"
    and "same_distances geodesic geodesic' start_coords self_places"
    and "same_distances geodesic geodesic' start_coords places"
  shows "find_optimal_places geodesic self_places cosine_scores min_time max_time start_coords
         = find_optimal_places geodesic' self_places cosine_scores' min_time max_time start_coords
       \<and> optimize_route_sequence geodesic places start_coords
         = optimize_route_sequence geodesic' places start_coords"
proof -
  define xs where "xs = score_places geodesic self_places cosine_scores start_coords"
  define ranked where "ranked = sort_key rank_key xs"
  have xs': "score_places geodesic' self_places cosine_scores' start_coords = xs"
    using score_places_cong [OF assms(1,2)] by (simp add: xs_def)
  have r: "places_with_scores geodesic self_places cosine_scores start_coords = Inr ranked"
    and r': "places_with_scores geodesic' self_places cosine_scores' start_coords = Inr ranked"
    by (simp_all add: places_with_scores_sort xs' ranked_def flip: xs_def)
  have sc: "\<forall>p \<in> set ranked. scored p"
    using ranked_facts(1) [OF r] .
  have "map coords xs = map coords self_places"
    unfolding xs_def score_places_nth by (rule nth_equalityI) simp_all
  then have "set (map coords xs) = set (map coords self_places)"
    by simp
  then have "coords ` set ranked = coords ` set self_places"
    by (simp add: ranked_def)
  then have "same_distances geodesic geodesic' start_coords ranked"
    using assms(2) by (simp add: same_distances_def)
  then have "budgeted_selector geodesic ranked min_time max_time start_coords
      = budgeted_selector geodesic' ranked min_time max_time start_coords"
    by (rule budgeted_selector_cong [OF sc])
  then have "find_optimal_places geodesic self_places cosine_scores min_time max_time start_coords
      = find_optimal_places geodesic' self_places cosine_scores' min_time max_time start_coords"
    by (simp add: find_optimal_places_def r r')
  then show ?thesis
    using optimize_route_sequence_cong [OF assms(3)] by simp
qed


lemma capability_answers_determine_results_example:
  "same_scores example_scores example_scores_rerun example_catalog
   \<and> same_distances example_geodesic example_geodesic_rerun (0, 0) example_catalog
   \<and> example_scores 3 \<noteq> example_scores_rerun 3
   \<and> example_geodesic (0, 1) (0, 2) \<noteq> example_geodesic_rerun (0, 1) (0, 2)
   \<and> find_optimal_places example_geodesic example_catalog example_scores 1 2 (0, 0)
     = find_optimal_places example_geodesic_rerun example_catalog example_scores_rerun 1 2 (0, 0)
   \<and> optimize_route_sequence example_geodesic example_catalog (0, 0)
     = optimize_route_sequence example_geodesic_rerun example_catalog (0, 0)"
proof -
  have s: "same_scores example_scores example_scores_rerun example_catalog"
    by (simp add: same_scores_def example_scores_rerun_def example_catalog_def)
  have d: "same_distances example_geodesic example_geodesic_rerun (0, 0) example_catalog"
    by (simp add: same_distances_def example_geodesic_rerun_def example_catalog_def
        example_place_def)
  have "example_scores 3 \<noteq> example_scores_rerun 3"
    by (simp add: example_scores_def example_scores_rerun_def)
  moreover have "example_geodesic (0, 1) (0, 2) \<noteq> example_geodesic_rerun (0, 1) (0, 2)"
    by (simp add: example_geodesic_def example_geodesic_rerun_def)
  ultimately show ?thesis
    using s d capability_answers_determine_results [OF s d d, of 1 2]
    by (simp only: simp_thms)
qed

subsection \<open>Route plan fallback\<close>

lemma sum_time_required_missing:
  "time_required p = None \<Longrightarrow> sum_time_required (p # ps) acc = Inl (KeyError ''time_required'')"
  by simp

lemma calculate_total_route_time_missing:
  assumes "places \<noteq> []" and "\<forall>p \<in> set places. time_required p = None"
  shows "calculate_total_route_time geodesic places start_coords = Inl (KeyError ''time_required'')"
proof -
  obtain p ps where "places = p # ps"
    using assms(1) by (cases places) auto
  then show ?thesis
    using assms(2) by (simp add: calculate_total_route_time_def)
qed

text \<open>
  C10. For a non-empty catalog of entries as the loader builds them and an input list of
  fewer than 3 places, \<^verbatim>\<open>generate_route_plan\<close> replaces the input by the first 5 catalog
  entries; they have no \<^verbatim>\<open>time_required\<close> key, so the total-time computation raises
  \<^verbatim>\<open>KeyError('time_required')\<close> and the call fails instead of returning an itinerary.
\<close>

theorem generate_route_plan_fallback_fails:
  assumes "self_places \<noteq> []" and "\<forall>p \<in> set self_places. raw_place p" and "length places < 3"
  shows "calculate_total_route_time geodesic
           (optimize_route_sequence geodesic (take 5 self_places) start_coords) start_coords
         = Inl (KeyError ''time_required'')
       \<and> generate_route_plan geodesic self_places places start_coords
         = Inl (KeyError ''time_required'')"
proof -
  define optimized where
    "optimized = optimize_route_sequence geodesic (take 5 self_places) start_coords"
  have perm: "mset optimized = mset (take 5 self_places)"
    by (simp add: optimized_def optimize_route_sequence_mset)
  have "0 < length (take 5 self_places)"
    using assms(1) by (cases self_places) simp_all
  moreover have "length optimized = length (take 5 self_places)"
    using perm by (rule mset_eq_length)
  ultimately have "0 < length optimized"
    by linarith
  then have nonempty: "optimized \<noteq> []"
    by (cases optimized) simp_all
  have "set optimized = set (take 5 self_places)"
    using perm by (rule mset_eq_setD)
  then have "set optimized \<subseteq> set self_places"
    using set_take_subset [of 5 self_places] by simp
  then have "\<forall>p \<in> set optimized. time_required p = None"
    using assms(2) by (auto simp: raw_place_def)
  then have fails: "calculate_total_route_time geodesic optimized start_coords
      = Inl (KeyError ''time_required'')"
    using nonempty by (rule calculate_total_route_time_missing [rotated])
  have "generate_route_plan geodesic self_places places start_coords
      = Inl (KeyError ''time_required'')"
    using assms(1) assms(3) fails
    by (simp add: generate_route_plan_def Let_def optimized_def)
  then show ?thesis
    using fails by (simp add: optimized_def)
qed


theorem generate_route_plan_fallback_fails_witness:
  "[example_place 1 1 0, example_place 2 2 0] \<noteq> []
   \<and> raw_place (example_place 1 1 0) \<and> raw_place (example_place 2 2 0)
   \<and> length [(example_place 3 3 0)\<lparr>time_required := Some (2 / 5)\<rparr>] < 3
   \<and> generate_route_plan example_geodesic [example_place 1 1 0, example_place 2 2 0]
        [(example_place 3 3 0)\<lparr>time_required := Some (2 / 5)\<rparr>] (0, 0)
      = Inl (KeyError ''time_required'')"
  using generate_route_plan_fallback_fails
    [of "[example_place 1 1 0, example_place 2 2 0]"
        "[(example_place 3 3 0)\<lparr>time_required := Some (2 / 5)\<rparr>]" example_geodesic "(0, 0)"]
  by (simp add: raw_place_def example_place_def)

subsection \<open>Dwell time\<close>

text \<open>
  C4 (as amended). \<^verbatim>\<open>calculate_time_for_place\<close> is the 4-tier step function of
  similarity: 0.75 gives 0.4 hours, exactly 0.5 gives 0.25 hours (the 0.3 tier starts
  strictly above 0.5), 0.1 gives 0.2 hours; in general a similarity above 0.7 gives 0.4,
  above 0.5 gives 0.3, above 0.3 gives 0.25 and anything else 0.2.
\<close>

theorem calculate_time_for_place_tiers:
  "calculate_time_for_place p 0.75 = 0.4
   \<and> calculate_time_for_place p 0.5 = 0.25
   \<and> calculate_time_for_place p 0.1 = 0.2
   \<and> calculate_time_for_place p score =
       (if score > 0.7 then 0.4 else if score > 0.5 then 0.3
        else if score > 0.3 then 0.25 else 0.2)"
  by (simp add: calculate_time_for_place_def)

text \<open>C4 as stated fails: similarity exactly 0.5 does not receive 0.3 hours.\<close>

theorem calculate_time_for_place_half_counterexample:
  "calculate_time_for_place (example_place 1 0 0) 0.5 \<noteq> 0.3"
  by (simp add: calculate_time_for_place_def)

subsection \<open>Walking time\<close>

text \<open>
  C5. For every non-negative distance \<open>d\<close> in km, \<^verbatim>\<open>calculate_walking_time(d)\<close> is
  \<open>clamp(d / 4.0 * 60, 5, 120)\<close> minutes; 0.1 km gives the floor 5, 50 km the ceiling
  120 and 4 km the unclamped value 60.
\<close>

theorem calculate_walking_time_clamp:
  "0 \<le> d \<Longrightarrow>
     calculate_walking_time d = clamp (d / 4 * 60) 5 120
     \<and> calculate_walking_time 0.1 = 5
     \<and> calculate_walking_time 50 = 120
     \<and> calculate_walking_time 4 = 60"
  by (simp add: calculate_walking_time_def clamp_def Let_def)

theorem calculate_walking_time_clamp_witness:
  "(0::real) \<le> 2 \<and> calculate_walking_time 2 = clamp (2 / 4 * 60) 5 120
   \<and> calculate_walking_time 2 = 30"
  using calculate_walking_time_clamp [of 2] by (simp add: clamp_def)

end
